theory Spec2Isabelle
  imports Complex_Main
begin

section \<open>The Rho/myosin model and its adaptive integrator\<close>

text \<open>
  The development embeds \<^verbatim>\<open>RhoMyosin.cpp\<close>. The C++ type \<^verbatim>\<open>double\<close> is modelled by
  \<^typ>\<open>real\<close>: arithmetic is exact, there is no rounding, no overflow and there are no
  infinities or NaNs. A \<^verbatim>\<open>std::vector<double>\<close> is a \<^typ>\<open>real list\<close>; every vector
  of the program has \<^verbatim>\<open>nvar\<close> entries, and the theorems assume this length where an
  index is read or written. Division in HOL is total (\<open>a / 0 = 0\<close>); the denominators
  of the source are therefore listed separately (\<open>rhs_denominators\<close>) so that statements
  about division by zero can be made about them.
\<close>

subsection \<open>Parameters of the integration algorithm\<close>

definition nvar :: nat where "nvar = 46"
definition tEnd :: real where "tEnd = 300.0"
definition dt0 :: real where "dt0 = 0.01"
definition dtsav :: real where "dtsav = 0.1"
definition tolerance :: real where "tolerance = 1.0 / 1000000"

subsection \<open>The enumeration of variable names\<close>

text \<open>An unscoped C++ enumeration: each name is an integer constant, used as an index.\<close>

named_theorems Variables_defs

definition Ca :: nat where [Variables_defs]: "Ca = 0"
definition CaM :: nat where [Variables_defs]: "CaM = 1"
definition CaCaM :: nat where [Variables_defs]: "CaCaM = 2"
definition Ng :: nat where [Variables_defs]: "Ng = 3"
definition NgCaM :: nat where [Variables_defs]: "NgCaM = 4"
definition CaMKII :: nat where [Variables_defs]: "CaMKII = 5"
definition Factin :: nat where [Variables_defs]: "Factin = 6"
definition CaMKIIFactin :: nat where [Variables_defs]: "CaMKIIFactin = 7"
definition Gactin :: nat where [Variables_defs]: "Gactin = 8"
definition CaMKIIGactin :: nat where [Variables_defs]: "CaMKIIGactin = 9"
definition CaMKIIp :: nat where [Variables_defs]: "CaMKIIp = 10"
definition CaN :: nat where [Variables_defs]: "CaN = 11"
definition CaNact :: nat where [Variables_defs]: "CaNact = 12"
definition I1 :: nat where [Variables_defs]: "I1 = 13"
definition I1act :: nat where [Variables_defs]: "I1act = 14"
definition PP1 :: nat where [Variables_defs]: "PP1 = 15"
definition PP1act :: nat where [Variables_defs]: "PP1act = 16"
definition Cdc42GEF :: nat where [Variables_defs]: "Cdc42GEF = 17"
definition Cdc42GEFact :: nat where [Variables_defs]: "Cdc42GEFact = 18"
definition Cdc42GDP :: nat where [Variables_defs]: "Cdc42GDP = 19"
definition Cdc42GTP :: nat where [Variables_defs]: "Cdc42GTP = 20"
definition GAP :: nat where [Variables_defs]: "GAP = 21"
definition GAPact :: nat where [Variables_defs]: "GAPact = 22"
definition WASP :: nat where [Variables_defs]: "WASP = 23"
definition WASPact :: nat where [Variables_defs]: "WASPact = 24"
definition Arp23 :: nat where [Variables_defs]: "Arp23 = 25"
definition Arp23act :: nat where [Variables_defs]: "Arp23act = 26"
definition SSH1 :: nat where [Variables_defs]: "SSH1 = 27"
definition SSH1act :: nat where [Variables_defs]: "SSH1act = 28"
definition LIMK :: nat where [Variables_defs]: "LIMK = 29"
definition LIMKact :: nat where [Variables_defs]: "LIMKact = 30"
definition Cofilin :: nat where [Variables_defs]: "Cofilin = 31"
definition Cofilinact :: nat where [Variables_defs]: "Cofilinact = 32"
definition Fnewactin :: nat where [Variables_defs]: "Fnewactin = 33"
definition B :: nat where [Variables_defs]: "B = 34"
definition Bp :: nat where [Variables_defs]: "Bp = 35"
definition RhoGEF :: nat where [Variables_defs]: "RhoGEF = 36"
definition RhoGEFact :: nat where [Variables_defs]: "RhoGEFact = 37"
definition RhoGDP :: nat where [Variables_defs]: "RhoGDP = 38"
definition RhoGTP :: nat where [Variables_defs]: "RhoGTP = 39"
definition ROCK :: nat where [Variables_defs]: "ROCK = 40"
definition ROCKact :: nat where [Variables_defs]: "ROCKact = 41"
definition MyoPpase :: nat where [Variables_defs]: "MyoPpase = 42"
definition MyoPpaseact :: nat where [Variables_defs]: "MyoPpaseact = 43"
definition MLC :: nat where [Variables_defs]: "MLC = 44"
definition MLCact :: nat where [Variables_defs]: "MLCact = 45"

subsection \<open>Writes into the derivative vector\<close>

text \<open>
  Every layer of the right-hand side ends in a block of statements on the output vector:
  \<^verbatim>\<open>dxdt[i] = e\<close> is \<open>Assign i e\<close> and \<^verbatim>\<open>dxdt[i] += e\<close> is \<open>Accum i e\<close>. A layer is
  the list of its writes in source order; running it folds them over the vector.
\<close>

datatype slot_write = Assign nat real | Accum nat real

fun apply_write :: "slot_write \<Rightarrow> real list \<Rightarrow> real list" where
  "apply_write (Assign i v) dxdt = dxdt[i := v]"
| "apply_write (Accum i v) dxdt = dxdt[i := dxdt ! i + v]"

definition run_writes :: "slot_write list \<Rightarrow> real list \<Rightarrow> real list" where
  "run_writes ws dxdt = fold apply_write ws dxdt"

fun target :: "slot_write \<Rightarrow> nat" where
  "target (Assign i v) = i"
| "target (Accum i v) = i"

fun is_assign :: "slot_write \<Rightarrow> bool" where
  "is_assign (Assign i v) = True"
| "is_assign (Accum i v) = False"

subsection \<open>The right-hand side, split up per module\<close>

definition rhsCaMKII_writes :: "real list \<Rightarrow> slot_write list" where
  "rhsCaMKII_writes x =
    (let v1 = 7.75 * (x ! Ca) ^ 3 - x ! CaCaM;
         v2 = 5.0 * x ! Ng * x ! CaM - x ! NgCaM;
         v3 = x ! CaMKII * x ! Factin - 4.0 * x ! CaMKIIFactin;
         v4 = x ! CaMKII * x ! Gactin - 4.0 * x ! CaMKIIGactin;
         v5 = (120.0 * (x ! CaCaM) ^ 4 * x ! CaMKII) / (4.0 ^ 4 + (x ! CaCaM) ^ 4)
              + (x ! CaMKIIp * x ! CaMKII) / (10.0 + x ! CaMKII);
         v6 = (15.0 * x ! PP1act * x ! CaMKIIp) / (3.0 + x ! CaMKIIp);
         v7 = (127.0 * (x ! CaCaM) ^ 4 * x ! CaN) / (0.34 ^ 4 + (x ! CaCaM) ^ 4);
         v8 = (0.34 * x ! CaMKIIp * x ! CaN) / (127.0 + x ! CaN);
         v9 = (0.034 * x ! CaNact * x ! I1) / (4.97 + x ! I1);
         v10 = (0.0688 * x ! CaMKIIp * x ! I1act) / (127.0 + x ! I1act);
         v11 = (50.0 * x ! I1act * x ! PP1) / (80.0 + x ! PP1)
               + (2.0 * x ! PP1act * x ! PP1) / (80.0 + x ! PP1);
         v12 = (0.07166 * x ! CaMKIIp * x ! PP1act) / (4.97 + x ! PP1act)
     in [Assign Ca (- 3.0 * v1),
         Assign CaM (- v1 - v2),
         Assign CaCaM v1,
         Assign Ng (- v2),
         Assign NgCaM v2,
         Assign CaMKII (- v3 - v4 - v5 + v6),
         Assign Factin (- v3),
         Assign CaMKIIFactin v3,
         Assign Gactin (- v4),
         Assign CaMKIIGactin v4,
         Assign CaMKIIp (v5 - v6),
         Assign CaN (- v7 + v8),
         Assign CaNact (v7 - v8),
         Assign I1 (- v9 + v10),
         Assign I1act (v9 - v10),
         Assign PP1 (- v11 + v12),
         Assign PP1act (v11 - v12)])"

definition rhsCaMKII :: "real \<Rightarrow> real list \<Rightarrow> real list \<Rightarrow> real list" where
  "rhsCaMKII t x dxdt = run_writes (rhsCaMKII_writes x) dxdt"

definition rhsArp23_writes :: "real list \<Rightarrow> slot_write list" where
  "rhsArp23_writes x =
    (let v1 = (0.01 * x ! CaMKIIp * x ! Cdc42GEF) / (1.0 + x ! Cdc42GEF);
         v2 = (0.01 * x ! PP1act * x ! Cdc42GEFact) / (1.0 + x ! Cdc42GEFact);
         v3 = (0.75 * x ! Cdc42GEFact * x ! Cdc42GDP) / (1.0 + x ! Cdc42GDP);
         v4 = (0.1 * x ! GAPact * x ! Cdc42GTP) / (1.0 + x ! Cdc42GTP);
         v5 = (0.01 * x ! CaMKIIp * x ! GAP) / (1.0 + x ! GAP);
         v6 = (0.01 * x ! PP1act * x ! GAPact) / (1.0 + x ! GAPact);
         v7 = 0.02 * x ! Cdc42GTP * x ! WASP - 0.001 * x ! WASPact;
         v8 = 0.1 * x ! Arp23 * x ! WASPact - 0.0 * x ! Arp23act
     in [Assign Cdc42GEF (- v1 + v2),
         Assign Cdc42GEFact (v1 - v2),
         Assign Cdc42GDP (- v3 + v4),
         Assign Cdc42GTP (v3 - v4 - v7),
         Assign GAP (- v5 + v6),
         Assign GAPact (v5 - v6),
         Assign WASP (- v7),
         Assign WASPact (v7 - v8),
         Assign Arp23 (- v8),
         Assign Arp23act v8])"

definition rhsArp23 :: "real \<Rightarrow> real list \<Rightarrow> real list \<Rightarrow> real list" where
  "rhsArp23 t x dxdt = run_writes (rhsArp23_writes x) (rhsCaMKII t x dxdt)"

definition rhsCofilin_writes :: "real list \<Rightarrow> slot_write list" where
  "rhsCofilin_writes x =
    (let v1 = (0.34 * x ! CaNact * x ! SSH1) / (4.97 + x ! SSH1);
         v2 = (127 * x ! CaMKIIp * x ! SSH1act) / (0.34 + x ! SSH1act);
         v3 = (0.9 * x ! ROCKact * x ! LIMK) / (0.3 + x ! LIMK);
         v4 = (0.34 * x ! SSH1act * x ! LIMKact) / (4.0 + x ! LIMKact);
         v5 = (0.34 * x ! SSH1act * x ! Cofilin) / (4.0 + x ! Cofilin);
         v6 = (0.34 * x ! LIMKact * x ! Cofilinact) / (4.0 + x ! Cofilinact)
     in [Assign SSH1 (- v1 + v2),
         Assign SSH1act (v1 - v2),
         Assign LIMK (- v3 + v4),
         Assign LIMKact (v3 - v4),
         Assign Cofilin (- v5 + v6),
         Assign Cofilinact (v5 - v6)])"

definition rhsCofilin :: "real \<Rightarrow> real list \<Rightarrow> real list \<Rightarrow> real list" where
  "rhsCofilin t x dxdt = run_writes (rhsCofilin_writes x) (rhsArp23 t x dxdt)"

definition rhsActin_writes :: "real list \<Rightarrow> slot_write list" where
  "rhsActin_writes x =
    (let fsev = (0.1 * 0.0002 * (x ! Cofilinact) ^ 4 * x ! Factin) / 0.0001;
         fnuc = (15.3 * x ! Arp23act * x ! Factin * x ! Gactin) / (2.0 + x ! Arp23act);
         vmb = 0.1 * x ! Bp / (x ! Bp + 10.0 * exp (50.0 / x ! Bp));
         v1 = 0.001 * x ! Fnewactin;
         v2 = fsev + 0.1 * x ! Factin + 0.01 * x ! Factin;
         v3 = fnuc;
         v4 = 106.0 * (fsev + fnuc) - 0.04 * x ! B;
         v5 = (0.1 - vmb) * x ! B - 0.04 * x ! Bp
     in [Assign Fnewactin (- v1),
         Accum Factin (v1 - v2),
         Accum Gactin (v2 - v3),
         Accum Arp23act (- v3),
         Assign B v4,
         Assign Bp v5])"

definition rhsActin :: "real \<Rightarrow> real list \<Rightarrow> real list \<Rightarrow> real list" where
  "rhsActin t x dxdt = run_writes (rhsActin_writes x) (rhsCofilin t x dxdt)"

text \<open>
  The first flux of the last layer. Its denominator is written \<^verbatim>\<open>(1.0 + RhoGEF)\<close> in the
  source: the enumeration constant, converted to \<^verbatim>\<open>double\<close>, not \<^verbatim>\<open>x[RhoGEF]\<close>.
\<close>

definition rhs_v1 :: "real list \<Rightarrow> real" where
  "rhs_v1 x = (0.01 * x ! CaMKIIp * x ! RhoGEF) / (1.0 + real RhoGEF)"

definition rhs_writes :: "real list \<Rightarrow> slot_write list" where
  "rhs_writes x =
    (let v1 = rhs_v1 x;
         v2 = (0.1 * x ! PP1act * x ! RhoGEFact) / (1.0 + x ! RhoGEFact);
         v3 = (0.75 * x ! RhoGEFact * x ! RhoGDP) / (1.0 + x ! RhoGDP);
         v4 = (0.1 * x ! GAPact * x ! RhoGTP) / (1.0 + x ! RhoGTP);
         v5 = 0.02 * x ! RhoGTP * x ! ROCK - 0.001 * x ! ROCKact;
         v6 = 0.01 * x ! MyoPpase + (3.0 * x ! MyoPpaseact * x ! MyoPpase) / (16.0 + x ! MyoPpase);
         v7 = (2.357 * x ! ROCKact * x ! MyoPpaseact) / (0.1 + x ! MyoPpaseact);
         v8 = 0.01 * x ! MLC + (1.8 * x ! ROCKact * x ! MLC) / (2.47 + x ! MLC);
         v9 = (1.0 * x ! MyoPpaseact * x ! MLCact) / (16.0 + x ! MLCact)
     in [Assign RhoGEF (- v1 + v2),
         Assign RhoGEFact (v1 - v2),
         Assign RhoGDP (- v3 + v4),
         Assign RhoGTP (v3 - v4 - v5),
         Assign ROCK (- v5),
         Assign ROCKact v5,
         Assign MyoPpase (- v6 + v7),
         Assign MyoPpaseact (v6 - v7),
         Assign MLC (- v8 + v9),
         Assign MLCact (v8 - v9)])"

definition rhs :: "real \<Rightarrow> real list \<Rightarrow> real list \<Rightarrow> real list" where
  "rhs t x dxdt = run_writes (rhs_writes x) (rhsActin t x dxdt)"

text \<open>All writes of one call of \<open>rhs\<close>, in the order in which they are executed.\<close>

definition all_writes :: "real list \<Rightarrow> slot_write list" where
  "all_writes x =
     rhsCaMKII_writes x @ rhsArp23_writes x @ rhsCofilin_writes x @ rhsActin_writes x
       @ rhs_writes x"

subsection \<open>The denominators of the right-hand side\<close>

text \<open>
  Every divisor that occurs in the five layers, in source order. The membrane velocity
  \<^verbatim>\<open>0.1 * x[Bp] / (x[Bp] + 10.0 * exp(50.0 / x[Bp]))\<close> contributes two: the inner
  \<^verbatim>\<open>x[Bp]\<close> and the outer sum.
\<close>

definition rhsCaMKII_denominators :: "real list \<Rightarrow> real list" where
  "rhsCaMKII_denominators x =
     [4.0 ^ 4 + (x ! CaCaM) ^ 4, 10.0 + x ! CaMKII, 3.0 + x ! CaMKIIp,
      0.34 ^ 4 + (x ! CaCaM) ^ 4, 127.0 + x ! CaN, 4.97 + x ! I1, 127.0 + x ! I1act,
      80.0 + x ! PP1, 80.0 + x ! PP1, 4.97 + x ! PP1act]"

definition rhsArp23_denominators :: "real list \<Rightarrow> real list" where
  "rhsArp23_denominators x =
     [1.0 + x ! Cdc42GEF, 1.0 + x ! Cdc42GEFact, 1.0 + x ! Cdc42GDP, 1.0 + x ! Cdc42GTP,
      1.0 + x ! GAP, 1.0 + x ! GAPact]"

definition rhsCofilin_denominators :: "real list \<Rightarrow> real list" where
  "rhsCofilin_denominators x =
     [4.97 + x ! SSH1, 0.34 + x ! SSH1act, 0.3 + x ! LIMK, 4.0 + x ! LIMKact,
      4.0 + x ! Cofilin, 4.0 + x ! Cofilinact]"

definition rhsActin_denominators :: "real list \<Rightarrow> real list" where
  "rhsActin_denominators x =
     [0.0001, 2.0 + x ! Arp23act, x ! Bp, x ! Bp + 10.0 * exp (50.0 / x ! Bp)]"

definition rhsRho_denominators :: "real list \<Rightarrow> real list" where
  "rhsRho_denominators x =
     [1.0 + real RhoGEF, 1.0 + x ! RhoGEFact, 1.0 + x ! RhoGDP, 1.0 + x ! RhoGTP,
      16.0 + x ! MyoPpase, 0.1 + x ! MyoPpaseact, 2.47 + x ! MLC, 16.0 + x ! MLCact]"

definition rhs_denominators :: "real list \<Rightarrow> real list" where
  "rhs_denominators x =
     rhsCaMKII_denominators x @ rhsArp23_denominators x @ rhsCofilin_denominators x
       @ rhsActin_denominators x @ rhsRho_denominators x"

text \<open>The evaluation is free of division by zero when no divisor vanishes.\<close>

definition rhs_defined :: "real list \<Rightarrow> bool" where
  "rhs_defined x = (\<forall>d \<in> set (rhs_denominators x). d \<noteq> 0)"

subsection \<open>The ODE integration routine\<close>

definition kdShrinkMax :: real where "kdShrinkMax = 0.1"
definition kdGrowMax :: real where "kdGrowMax = 1.2"
definition kdSafety :: real where "kdSafety = 0.9"
definition kdMinH :: real where "kdMinH = 1.0 / 1000000"

text \<open>
  The four reference parameters of \<^verbatim>\<open>bogackiShampineStepper(t, x, dxdt1, h)\<close>. The stepper
  returns them updated, together with its outcome: \<open>Inr True\<close> for an accepted step,
  \<open>Inr False\<close> for a rejected one, \<open>Inl StepSizeUnderflow\<close> for the thrown
  \<^verbatim>\<open>runtime_error\<close> (the step size has already been overwritten when it is thrown).
\<close>

record step_state =
  st_t :: real
  st_x :: "real list"
  st_dxdt1 :: "real list"
  st_h :: real

datatype error = StepSizeUnderflow

text \<open>\<^verbatim>\<open>std::vector<double> v(nvar)\<close>: a value-initialised vector.\<close>

definition fresh :: "real list" where
  "fresh = replicate nvar 0"

text \<open>Step 2: the first loop fills the new vector \<^verbatim>\<open>xtmp\<close>.\<close>

definition xtmp2 :: "step_state \<Rightarrow> real list" where
  "xtmp2 s =
     fold (\<lambda>i xtmp. xtmp[i := st_x s ! i + 0.5 * st_h s * st_dxdt1 s ! i]) [0..<nvar] fresh"

definition dxdt2 :: "step_state \<Rightarrow> real list" where
  "dxdt2 s = rhs (st_t s + 0.5 * st_h s) (xtmp2 s) fresh"

text \<open>Step 3: \<^verbatim>\<open>xtmp\<close> is overwritten in place.\<close>

definition xtmp3 :: "step_state \<Rightarrow> real list" where
  "xtmp3 s =
     fold (\<lambda>i xtmp. xtmp[i := st_x s ! i + 0.75 * st_h s * dxdt2 s ! i]) [0..<nvar] (xtmp2 s)"

definition dxdt3 :: "step_state \<Rightarrow> real list" where
  "dxdt3 s = rhs (st_t s + 0.75 * st_h s) (xtmp3 s) fresh"

text \<open>Step 4.\<close>

definition xtmp4 :: "step_state \<Rightarrow> real list" where
  "xtmp4 s =
     fold (\<lambda>i xtmp. xtmp[i := st_x s ! i
             + (1.0 / 9.0) * st_h s * (2.0 * st_dxdt1 s ! i + 3.0 * dxdt2 s ! i + 4.0 * dxdt3 s ! i)])
       [0..<nvar] (xtmp3 s)"

definition dxdt4 :: "step_state \<Rightarrow> real list" where
  "dxdt4 s = rhs (st_t s + st_h s) (xtmp4 s) fresh"

text \<open>The local error of component \<open>i\<close>, scaled by the tolerance.\<close>

definition erri :: "step_state \<Rightarrow> nat \<Rightarrow> real" where
  "erri s i =
     \<bar>st_h s * ((5.0 / 72.0) * st_dxdt1 s ! i - (1.0 / 12.0) * dxdt2 s ! i
                - (1.0 / 9.0) * dxdt3 s ! i + (1.0 / 8.0) * dxdt4 s ! i)\<bar> / tolerance"

text \<open>
  The last loop: it overwrites \<^verbatim>\<open>xtmp\<close> with the propagated solution and tracks the
  largest error seen, starting from \<^verbatim>\<open>errMax = 0.0\<close>.
\<close>

definition error_loop :: "step_state \<Rightarrow> real list \<times> real" where
  "error_loop s =
     fold (\<lambda>i (xtmp, errMax).
             (xtmp[i := st_x s ! i + st_h s / 24.0
                  * (7.0 * st_dxdt1 s ! i + 6.0 * dxdt2 s ! i + 8.0 * dxdt3 s ! i
                     + 3.0 * dxdt4 s ! i)],
              if erri s i > errMax then erri s i else errMax))
       [0..<nvar] (xtmp4 s, 0.0)"

definition xnew :: "step_state \<Rightarrow> real list" where
  "xnew s = fst (error_loop s)"

definition errMax :: "step_state \<Rightarrow> real" where
  "errMax s = snd (error_loop s)"

text \<open>\<^verbatim>\<open>std::pow(errMax, 1.0 / 3.0)\<close> is only evaluated for a positive \<^verbatim>\<open>errMax\<close>.\<close>

definition fct :: "step_state \<Rightarrow> real" where
  "fct s = (if errMax s > 0.0 then kdSafety / (errMax s powr (1.0 / 3.0)) else kdGrowMax)"

definition bogackiShampineStepper :: "step_state \<Rightarrow> (error + bool) \<times> step_state" where
  "bogackiShampineStepper s =
     (if errMax s > 1.0 then
        (let h' = (if fct s < kdShrinkMax then st_h s * kdShrinkMax else st_h s * fct s)
         in if h' < kdMinH then (Inl StepSizeUnderflow, s\<lparr>st_h := h'\<rparr>)
            else (Inr False, s\<lparr>st_h := h'\<rparr>))
      else
        (Inr True,
         \<lparr>st_t = st_t s + st_h s,
          st_x = xnew s,
          st_dxdt1 = dxdt4 s,
          st_h = (if fct s > kdGrowMax then st_h s * kdGrowMax else st_h s * fct s)\<rparr>))"

subsection \<open>The integration loop of main\<close>

text \<open>
  The loop variables: the stepper's four variables (\<^verbatim>\<open>t\<close>, \<^verbatim>\<open>x\<close>, \<^verbatim>\<open>dxdt1\<close>, \<^verbatim>\<open>dt\<close>),
  the next saving time, the counters and step-size statistics, and the rows written to
  the data file so far (time first, then the state), oldest first.
\<close>

record loop_state =
  lp_st :: step_state
  lp_tsav :: real
  lp_nOK :: int
  lp_nStep :: int
  lp_dtMin :: real
  lp_dtMax :: real
  lp_out :: "(real \<times> real list) list"

text \<open>One pass through the body of the \<^verbatim>\<open>for\<close> loop, including its increment.\<close>

definition loop_body :: "loop_state \<Rightarrow> error + loop_state" where
  "loop_body s =
     (case bogackiShampineStepper (lp_st s) of
        (Inl e, st') \<Rightarrow> Inl e
      | (Inr ok, st') \<Rightarrow>
          Inr \<lparr>lp_st = st',
               lp_tsav = (if st_t st' > lp_tsav s then lp_tsav s + dtsav else lp_tsav s),
               lp_nOK = (if ok then lp_nOK s + 1 else lp_nOK s),
               lp_nStep = lp_nStep s + 1,
               lp_dtMin = (if st_h st' < lp_dtMin s then st_h st' else lp_dtMin s),
               lp_dtMax = (if st_h st' < lp_dtMin s then lp_dtMax s
                           else if st_h st' > lp_dtMax s then st_h st' else lp_dtMax s),
               lp_out = (if st_t st' > lp_tsav s then lp_out s @ [(st_t st', st_x st')]
                         else lp_out s)\<rparr>)"

text \<open>
  The loop may run for ever, so it is given fuel: \<open>main_loop n s\<close> is the state after
  at most \<open>n\<close> passes, fewer when \<^verbatim>\<open>t < tEnd\<close> fails first, or the error thrown.
\<close>

fun main_loop :: "nat \<Rightarrow> loop_state \<Rightarrow> error + loop_state" where
  "main_loop 0 s = Inr s"
| "main_loop (Suc n) s =
     (if st_t (lp_st s) < tEnd then
        (case loop_body s of Inl e \<Rightarrow> Inl e | Inr s' \<Rightarrow> main_loop n s')
      else Inr s)"

text \<open>The initial conditions set in \<^verbatim>\<open>main\<close>.\<close>

definition x_init :: "real list" where
  "x_init = (replicate nvar 0.0)
     [Ca := 1.0, CaMKIIFactin := 10.0, CaMKIIGactin := 10.0, CaN := 1.0, CaM := 10.0,
      Ng := 20.0, I1 := 1.8, PP1 := 0.27, WASP := 1.0, Arp23 := 1.0, Cdc42GDP := 1.0,
      Cdc42GEF := 0.1, LIMK := 2.0, SSH1 := 2.0, Cofilin := 2.0, Bp := 1.0, B := 30.0,
      MyoPpaseact := 0.1, RhoGEF := 0.1, RhoGDP := 1.0, ROCK := 1.0, MyoPpase := 1.1,
      MLC := 5.0, GAP := 0.1]"

text \<open>
  The state in which the loop is entered for initial conditions \<open>x0\<close>: ``step 1 once''
  evaluates the right-hand side at time 0, and the loop header sets \<^verbatim>\<open>t\<close>, \<^verbatim>\<open>tsav\<close>
  and \<^verbatim>\<open>dt\<close>.
\<close>

definition loop_init :: "real list \<Rightarrow> loop_state" where
  "loop_init x0 =
     \<lparr>lp_st = \<lparr>st_t = 0.0, st_x = x0, st_dxdt1 = rhs 0.0 x0 fresh, st_h = dt0\<rparr>,
      lp_tsav = 0.0, lp_nOK = 0, lp_nStep = 0, lp_dtMin = dt0, lp_dtMax = kdMinH,
      lp_out = []\<rparr>"

definition main_run :: "nat \<Rightarrow> error + loop_state" where
  "main_run n = main_loop n (loop_init x_init)"

subsection \<open>Notions used in the statements\<close>

text \<open>
  The pairs (species, activated form) whose derivatives are written as \<open>- v\<close> and
  \<open>+ v\<close> for a common net flux \<open>v\<close>.
\<close>

definition conserved_pairs :: "(nat \<times> nat) list" where
  "conserved_pairs =
     [(CaN, CaNact), (I1, I1act), (PP1, PP1act), (Cdc42GEF, Cdc42GEFact), (GAP, GAPact),
      (SSH1, SSH1act), (LIMK, LIMKact), (Cofilin, Cofilinact), (RhoGEF, RhoGEFact),
      (ROCK, ROCKact), (MyoPpase, MyoPpaseact), (MLC, MLCact)]"

text \<open>
  A list of writes accumulates only into slots that an earlier write of the list (or one
  of the slots \<open>seen\<close> before it) has assigned.
\<close>

fun accum_after_assign :: "nat list \<Rightarrow> slot_write list \<Rightarrow> bool" where
  "accum_after_assign seen [] = True"
| "accum_after_assign seen (Assign i v # ws) = accum_after_assign (i # seen) ws"
| "accum_after_assign seen (Accum i v # ws) = (i \<in> set seen \<and> accum_after_assign seen ws)"

text \<open>
  States in which only \<^verbatim>\<open>x[Bp]\<close> is populated. On them the right-hand side reduces to
  \<^verbatim>\<open>dxdt[Bp] = - 0.04 * x[Bp]\<close>, and one step of the integrator to the scalar
  quantities below (the stages, the propagated value and the scaled error of \<^verbatim>\<open>Bp\<close>).
  They serve as concrete inputs.
\<close>

definition bp_state :: "real \<Rightarrow> real list" where
  "bp_state a = (replicate nvar 0)[Bp := a]"

definition bp_step :: "real \<Rightarrow> real \<Rightarrow> real \<Rightarrow> real \<Rightarrow> step_state" where
  "bp_step t a d h = \<lparr>st_t = t, st_x = bp_state a, st_dxdt1 = bp_state d, st_h = h\<rparr>"

definition bp_k2 :: "real \<Rightarrow> real \<Rightarrow> real \<Rightarrow> real" where
  "bp_k2 a d h = - 0.04 * (a + 0.5 * h * d)"

definition bp_k3 :: "real \<Rightarrow> real \<Rightarrow> real \<Rightarrow> real" where
  "bp_k3 a d h = - 0.04 * (a + 0.75 * h * bp_k2 a d h)"

definition bp_x4 :: "real \<Rightarrow> real \<Rightarrow> real \<Rightarrow> real" where
  "bp_x4 a d h = a + (1.0 / 9.0) * h * (2.0 * d + 3.0 * bp_k2 a d h + 4.0 * bp_k3 a d h)"

definition bp_k4 :: "real \<Rightarrow> real \<Rightarrow> real \<Rightarrow> real" where
  "bp_k4 a d h = - 0.04 * bp_x4 a d h"

definition bp_new :: "real \<Rightarrow> real \<Rightarrow> real \<Rightarrow> real" where
  "bp_new a d h =
     a + h / 24.0 * (7.0 * d + 6.0 * bp_k2 a d h + 8.0 * bp_k3 a d h + 3.0 * bp_k4 a d h)"

definition bp_err :: "real \<Rightarrow> real \<Rightarrow> real \<Rightarrow> real" where
  "bp_err a d h =
     \<bar>h * ((5.0 / 72.0) * d - (1.0 / 12.0) * bp_k2 a d h - (1.0 / 9.0) * bp_k3 a d h
           + (1.0 / 8.0) * bp_k4 a d h)\<bar> / tolerance"

text \<open>
  A trajectory of the model: a curve of states that, from time 0 on, is differentiable
  with, in every component and at every time, the derivative that the right-hand side
  returns.
\<close>

definition trajectory :: "(real \<Rightarrow> real list) \<Rightarrow> bool" where
  "trajectory X \<longleftrightarrow>
     (\<forall>\<tau>\<ge>0. \<forall>i<nvar. ((\<lambda>u. X u ! i) has_real_derivative rhs \<tau> (X \<tau>) fresh ! i) (at \<tau>))"

text \<open>
  A state at which the flux \<^verbatim>\<open>v8\<close> of the first layer, which enters \<^verbatim>\<open>dxdt[CaN]\<close> and
  \<^verbatim>\<open>dxdt[CaNact]\<close>, divides by zero: \<^verbatim>\<open>x[CaN] = -127\<close> and every other species 1.
\<close>

definition pole_state :: "real list" where
  "pole_state = (replicate nvar 1)[CaN := - 127]"

text \<open>
  States in which only \<^verbatim>\<open>x[MLC]\<close>, \<^verbatim>\<open>x[MLCact]\<close> and \<^verbatim>\<open>x[Bp]\<close> are populated, and
  the trajectory through \<^verbatim>\<open>MLC = 1\<close>, \<^verbatim>\<open>Bp = 1\<close> that stays among them.
\<close>

definition mlc_state :: "real \<Rightarrow> real \<Rightarrow> real \<Rightarrow> real list" where
  "mlc_state m n b = (replicate nvar 0)[MLC := m, MLCact := n, Bp := b]"

definition mlc_traj :: "real \<Rightarrow> real list" where
  "mlc_traj \<tau> = mlc_state (exp (- \<tau> / 100)) (1 - exp (- \<tau> / 100)) (exp (- \<tau> / 25))"

text \<open>
  The loop entered with \<^verbatim>\<open>x[Bp] = 1\<close> and every other species 0: the state passed to
  the first call of the stepper, and the state it leaves for the second call.
\<close>

definition first_call :: step_state where
  "first_call = lp_st (loop_init (bp_state 1))"

definition second_call :: step_state where
  "second_call = snd (bogackiShampineStepper first_call)"

text \<open>
  The order of two rows of the data file: the second is later in time, or it repeats
  the first.
\<close>

definition sample_le :: "real \<times> real list \<Rightarrow> real \<times> real list \<Rightarrow> bool" where
  "sample_le p q \<longleftrightarrow> fst p < fst q \<or> p = q"

text \<open>The row that would be written now.\<close>

definition current_sample :: "loop_state \<Rightarrow> real \<times> real list" where
  "current_sample l = (st_t (lp_st l), st_x (lp_st l))"

text \<open>
  What the loop maintains about the rows written so far: they are in order, and the
  last of them is not later than the current time (it is the current row if it has the
  current time). The step size stays positive.
\<close>

definition samples_inv :: "loop_state \<Rightarrow> bool" where
  "samples_inv l \<longleftrightarrow>
     0 < st_h (lp_st l) \<and> successively sample_le (lp_out l)
     \<and> (lp_out l = [] \<or> sample_le (last (lp_out l)) (current_sample l))"

subsection \<open>A linear corner of the model\<close>

text \<open>
  States in which only \<^verbatim>\<open>x[CaMKIIp]\<close>, \<^verbatim>\<open>x[RhoGEF]\<close>, \<^verbatim>\<open>x[RhoGEFact]\<close> and \<^verbatim>\<open>x[Bp]\<close>
  are populated. With \<^verbatim>\<open>x[CaMKIIp] = 92500\<close> the first flux of the last layer is
  \<^verbatim>\<open>0.01 * 92500 * x[RhoGEF] / 37 = 25 * x[RhoGEF]\<close>, every other flux but the decay of
  \<^verbatim>\<open>Bp\<close> vanishes, and the right-hand side reduces to
  \<^verbatim>\<open>dxdt[RhoGEF] = - 25 * x[RhoGEF]\<close>, \<^verbatim>\<open>dxdt[RhoGEFact] = 25 * x[RhoGEF]\<close>,
  \<^verbatim>\<open>dxdt[Bp] = - 0.04 * x[Bp]\<close>.
\<close>

definition rho_state :: "real \<Rightarrow> real \<Rightarrow> real \<Rightarrow> real \<Rightarrow> real list" where
  "rho_state p r a b = (replicate nvar 0)[CaMKIIp := p, RhoGEF := r, RhoGEFact := a, Bp := b]"

text \<open>
  The variables of the stepper on such a state; the stored derivatives of \<^verbatim>\<open>RhoGEF\<close> and
  \<^verbatim>\<open>RhoGEFact\<close> are opposite.
\<close>

definition rho_step :: "real \<Rightarrow> real \<Rightarrow> real \<Rightarrow> real \<Rightarrow> real \<Rightarrow> real \<Rightarrow> real \<Rightarrow> step_state" where
  "rho_step t h r a b dr db =
     \<lparr>st_t = t, st_x = rho_state 92500 r a b, st_dxdt1 = rho_state 0 dr (- dr) db, st_h = h\<rparr>"

text \<open>
  One step of the integrator on a species that decays at rate \<open>lam\<close>, from the value \<open>x\<close>
  with stored derivative \<open>d\<close>: the stage derivatives, the state of the last stage, the
  propagated value and the scaled error.
\<close>

definition lin_k2 :: "real \<Rightarrow> real \<Rightarrow> real \<Rightarrow> real \<Rightarrow> real" where
  "lin_k2 lam x d h = - lam * (x + 0.5 * h * d)"

definition lin_k3 :: "real \<Rightarrow> real \<Rightarrow> real \<Rightarrow> real \<Rightarrow> real" where
  "lin_k3 lam x d h = - lam * (x + 0.75 * h * lin_k2 lam x d h)"

definition lin_x4 :: "real \<Rightarrow> real \<Rightarrow> real \<Rightarrow> real \<Rightarrow> real" where
  "lin_x4 lam x d h =
     x + (1.0 / 9.0) * h * (2.0 * d + 3.0 * lin_k2 lam x d h + 4.0 * lin_k3 lam x d h)"

definition lin_k4 :: "real \<Rightarrow> real \<Rightarrow> real \<Rightarrow> real \<Rightarrow> real" where
  "lin_k4 lam x d h = - lam * lin_x4 lam x d h"

definition lin_new :: "real \<Rightarrow> real \<Rightarrow> real \<Rightarrow> real \<Rightarrow> real" where
  "lin_new lam x d h =
     x + h / 24.0 * (7.0 * d + 6.0 * lin_k2 lam x d h + 8.0 * lin_k3 lam x d h
                     + 3.0 * lin_k4 lam x d h)"

definition lin_err :: "real \<Rightarrow> real \<Rightarrow> real \<Rightarrow> real \<Rightarrow> real" where
  "lin_err lam x d h =
     \<bar>h * ((5.0 / 72.0) * d - (1.0 / 12.0) * lin_k2 lam x d h - (1.0 / 9.0) * lin_k3 lam x d h
           + (1.0 / 8.0) * lin_k4 lam x d h)\<bar> / tolerance"

text \<open>
  In units of the tolerance, write \<open>u\<close> for the value of such a species and \<open>u + e\<close> for
  the state at which its stored derivative was evaluated (so \<open>e = 0\<close> when the loop is
  entered). With \<open>z = lam * h\<close>, an accepted step maps \<open>(u, e)\<close> linearly to the pair
  \<open>ud_next z (u, e)\<close>, whose coefficients are four polynomials in \<open>z\<close>; the scaled error
  of the step is the absolute value of the new \<open>e\<close>. A polynomial is kept as two lists of
  non-negative coefficients, lowest degree first: those of its positive and of its
  negative terms.
\<close>

fun pv :: "real list \<Rightarrow> real \<Rightarrow> real" where
  "pv [] z = 0"
| "pv (c # cs) z = c + z * pv cs z"

definition poly_R2 :: "real list \<times> real list" where
  "poly_R2 = ([1, 0, 1 / 2, 0, 1 / 48], [0, 1, 0, 3 / 16])"

definition poly_Ns :: "real list \<times> real list" where
  "poly_Ns = ([0, 0, 11 / 72, 0, 1 / 48], [0, 7 / 24, 0, 7 / 48])"

definition poly_A :: "real list \<times> real list" where
  "poly_A = ([0, 0, 0, 1 / 48], [0, 0, 0, 0, 1 / 48])"

definition poly_Bq :: "real list \<times> real list" where
  "poly_Bq = ([0, 5 / 72, 1 / 72], [0, 0, 0, 1 / 48, 1 / 48])"

fun pe :: "real list \<times> real list \<Rightarrow> real \<Rightarrow> real" where
  "pe (cp, cn) z = pv cp z - pv cn z"

fun ud_next :: "real \<Rightarrow> real \<times> real \<Rightarrow> real \<times> real" where
  "ud_next z (u, e) = (pe poly_R2 z * u + pe poly_Ns z * e, pe poly_A z * u + pe poly_Bq z * e)"

text \<open>
  Consecutive accepted steps, each growing the step size by \<open>kdGrowMax\<close>, from the step
  size \<open>h\<close>.
\<close>

fun ud_iter :: "real \<Rightarrow> real \<Rightarrow> nat \<Rightarrow> real \<times> real \<Rightarrow> real \<times> real" where
  "ud_iter lam h 0 p = p"
| "ud_iter lam h (Suc n) p = ud_iter lam (h * kdGrowMax) n (ud_next (lam * h) p)"

text \<open>
  The iterates are enclosed with interval arithmetic. A polynomial with non-negative
  coefficients is monotone on the non-negative reals, which bounds the four coefficients
  on an interval of \<open>z\<close>; a product of intervals is bounded by its four corner products.
\<close>

type_synonym interval = "real \<times> real"

fun in_iv :: "real \<Rightarrow> interval \<Rightarrow> bool" where
  "in_iv x (l, u) \<longleftrightarrow> l \<le> x \<and> x \<le> u"

fun iv_subset :: "interval \<Rightarrow> interval \<Rightarrow> bool" where
  "iv_subset (l, u) (l', u') \<longleftrightarrow> l' \<le> l \<and> u \<le> u'"

fun iadd :: "interval \<Rightarrow> interval \<Rightarrow> interval" where
  "iadd (l, u) (l', u') = (l + l', u + u')"

fun min4 :: "real \<Rightarrow> real \<Rightarrow> real \<Rightarrow> real \<Rightarrow> real" where
  "min4 a b c d = min (min a b) (min c d)"

fun max4 :: "real \<Rightarrow> real \<Rightarrow> real \<Rightarrow> real \<Rightarrow> real" where
  "max4 a b c d = max (max a b) (max c d)"

fun corners :: "real \<Rightarrow> real \<Rightarrow> real \<Rightarrow> real \<Rightarrow> interval" where
  "corners a b c d = (min4 a b c d, max4 a b c d)"

fun imul :: "interval \<Rightarrow> interval \<Rightarrow> interval" where
  "imul (l, u) (l', u') = corners (l * l') (l * u') (u * l') (u * u')"

fun encl :: "real list \<times> real list \<Rightarrow> interval \<Rightarrow> interval" where
  "encl (cp, cn) (zl, zh) = (pv cp zl - pv cn zh, pv cp zh - pv cn zl)"

fun nonneg_coeffs :: "real list \<times> real list \<Rightarrow> bool" where
  "nonneg_coeffs (cp, cn) \<longleftrightarrow> list_all (\<lambda>c. 0 \<le> c) cp \<and> list_all (\<lambda>c. 0 \<le> c) cn"

fun istep :: "interval \<Rightarrow> interval \<times> interval \<Rightarrow> interval \<times> interval" where
  "istep Z (U, E) = (iadd (imul (encl poly_R2 Z) U) (imul (encl poly_Ns Z) E),
                     iadd (imul (encl poly_A Z) U) (imul (encl poly_Bq Z) E))"

fun box_subset :: "interval \<times> interval \<Rightarrow> interval \<times> interval \<Rightarrow> bool" where
  "box_subset (U, E) (U', E') \<longleftrightarrow> iv_subset U U' \<and> iv_subset E E'"

fun in_box :: "real \<times> real \<Rightarrow> interval \<times> interval \<Rightarrow> bool" where
  "in_box (u, e) (U, E) \<longleftrightarrow> in_iv u U \<and> in_iv e E"

text \<open>
  A row \<open>(zl, zh, ul, uh, el, eh)\<close> claims of one step that \<open>z\<close> lies in \<open>[zl, zh]\<close> and
  that the step leads into the box \<open>[ul, uh] \<times> [el, eh]\<close>. A list of rows is checked
  against the box \<open>b\<close> in which the iteration starts: each row must enclose the interval
  step from the box of the row before.
\<close>

type_synonym cert_row = "real \<times> real \<times> real \<times> real \<times> real \<times> real"

fun row_z :: "cert_row \<Rightarrow> interval" where
  "row_z (zl, zh, ul, uh, el, eh) = (zl, zh)"

fun row_box :: "cert_row \<Rightarrow> interval \<times> interval" where
  "row_box (zl, zh, ul, uh, el, eh) = ((ul, uh), (el, eh))"

fun chain_ok :: "real \<Rightarrow> real \<Rightarrow> interval \<times> interval \<Rightarrow> cert_row list \<Rightarrow> bool" where
  "chain_ok lam h b [] = True"
| "chain_ok lam h b (r # rs) \<longleftrightarrow>
     0 \<le> fst (row_z r) \<and> in_iv (lam * h) (row_z r)
     \<and> box_subset (istep (row_z r) b) (row_box r)
     \<and> chain_ok lam (h * kdGrowMax) (row_box r) rs"

text \<open>
  The scaled error that a row encloses is below \<open>27 / 64\<close>: an error below this bound
  lets the step size grow by \<open>kdGrowMax\<close>.
\<close>

fun row_small :: "cert_row \<Rightarrow> bool" where
  "row_small (zl, zh, ul, uh, el, eh) \<longleftrightarrow> - (27 / 64) < el \<and> eh < 27 / 64"

text \<open>
  The loop variables that matter on these states: time, step size and next saving time,
  the pairs \<open>(u, e)\<close> of \<^verbatim>\<open>RhoGEF\<close> and \<^verbatim>\<open>Bp\<close>, and the times of the rows written so
  far. The sum of \<^verbatim>\<open>x[RhoGEF]\<close> and \<^verbatim>\<open>x[RhoGEFact]\<close> is conserved; it is \<open>1 / 10000\<close> in
  the run considered.
\<close>

record rho_point =
  rp_t :: real
  rp_h :: real
  rp_tsav :: real
  rp_R :: "real \<times> real"
  rp_B :: "real \<times> real"
  rp_times :: "real list"

definition rho_step_of :: "rho_point \<Rightarrow> step_state" where
  "rho_step_of c =
     rho_step (rp_t c) (rp_h c) (tolerance * fst (rp_R c)) (1 / 10000 - tolerance * fst (rp_R c))
       (tolerance * fst (rp_B c))
       (- 25 * (tolerance * (fst (rp_R c) + snd (rp_R c))))
       (- 0.04 * (tolerance * (fst (rp_B c) + snd (rp_B c))))"

text \<open>A pass of the loop that accepts its step with the largest growth of the step size.\<close>

definition rho_next :: "rho_point \<Rightarrow> rho_point" where
  "rho_next c =
     \<lparr>rp_t = rp_t c + rp_h c, rp_h = rp_h c * kdGrowMax,
      rp_tsav = (if rp_t c + rp_h c > rp_tsav c then rp_tsav c + dtsav else rp_tsav c),
      rp_R = ud_next (25 * rp_h c) (rp_R c),
      rp_B = ud_next (0.04 * rp_h c) (rp_B c),
      rp_times = (if rp_t c + rp_h c > rp_tsav c then rp_times c @ [rp_t c + rp_h c]
                  else rp_times c)\<rparr>"

definition rho_err :: "rho_point \<Rightarrow> real" where
  "rho_err c = max \<bar>snd (rp_R (rho_next c))\<bar> \<bar>snd (rp_B (rho_next c))\<bar>"

fun rho_iter :: "nat \<Rightarrow> rho_point \<Rightarrow> rho_point" where
  "rho_iter 0 c = c"
| "rho_iter (Suc n) c = rho_iter n (rho_next c)"

text \<open>
  Time, step size, next saving time and the times of the rows written after \<open>n\<close> such
  passes.
\<close>

fun sched :: "nat \<Rightarrow> real \<times> real \<times> real \<times> real list \<Rightarrow> real \<times> real \<times> real \<times> real list" where
  "sched 0 s = s"
| "sched (Suc n) (t, h, tsav, ts) =
     sched n (t + h, h * kdGrowMax, if t + h > tsav then tsav + dtsav else tsav,
              if t + h > tsav then ts @ [t + h] else ts)"

text \<open>
  The initial conditions of the run considered, \<^verbatim>\<open>x[CaMKIIp] = 92500\<close>,
  \<^verbatim>\<open>x[RhoGEF] = 1.0e-4\<close>, \<^verbatim>\<open>x[Bp] = 1.0e-6\<close> and every other species 0, and the loop
  variables with which the loop is entered for them.
\<close>

definition rho_x0 :: "real list" where
  "rho_x0 = rho_state 92500 (1 / 10000) 0 (1 / 1000000)"

definition rho_c0 :: rho_point where
  "rho_c0 = \<lparr>rp_t = 0, rp_h = dt0, rp_tsav = 0, rp_R = (100, 0), rp_B = (1, 0),
              rp_times = []\<rparr>"

text \<open>
  Enclosures of the first eighteen iterates of \<^verbatim>\<open>RhoGEF\<close> (rate 25) and of the first
  seventeen of \<^verbatim>\<open>Bp\<close> (rate 0.04) from these initial conditions, in units of the
  tolerance. They are not assumed: \<open>chain_ok\<close> is evaluated on them below.
\<close>

definition rhogef_rows :: "cert_row list" where
  "rhogef_rows =
    [(1 / 4, 1 / 4, 1946 / 25, 77841 / 1000, 12207 / 500000, 4883 / 200000),
     (3 / 10, 3 / 10, 57607 / 1000, 57609 / 1000, 3117 / 100000, 7793 / 250000),
     (9 / 25, 9 / 25, 20057 / 500, 40117 / 1000, 3663 / 100000, 4579 / 125000),
     (54 / 125, 54 / 125, 12973 / 500, 25949 / 1000, 63 / 1600, 39379 / 1000000),
     (324 / 625, 324 / 625, 7669 / 500, 767 / 50, 37657 / 1000000, 37663 / 1000000),
     (1944 / 3125, 1944 / 3125, 4057 / 500, 81151 / 10000, 15297 / 500000, 30599 / 1000000),
     (74649 / 100000, 1493 / 2000, 7463 / 2000, 37323 / 10000, 19183 / 1000000, 2399 / 125000),
     (89579 / 100000, 4479 / 5000, 7143 / 5000, 14291 / 10000, 13367 / 2000000, 33447 / 5000000),
     (10749 / 10000, 43 / 40, 21159 / 50000, 339 / 800, - 6343 / 2500000, - 12553 / 5000000),
     (12899 / 10000, 129 / 100, 1318 / 15625, 4231 / 50000, - 11053 / 2000000, - 27533 / 5000000),
     (15479 / 10000, 387 / 250, 723 / 80000, 91043 / 10000000, - 32761 / 10000000, - 16297 / 5000000),
     (743 / 400, 1161 / 625, 2999 / 2000000, 15229 / 10000000, - 18799 / 50000000, - 18197 / 50000000),
     (2229 / 1000, 22291 / 10000, - 67 / 625000, - 86869 / 1000000000, - 24229 / 100000000, - 22913 / 100000000),
     (6687 / 2500, 26749 / 10000, 2357 / 6250000, 10213 / 25000000, 8209 / 25000000, 7151 / 20000000),
     (32097 / 10000, 16049 / 5000, - 567 / 500000, - 5213 / 5000000, - 7641 / 5000000, - 14061 / 10000000),
     (38517 / 10000, 19259 / 5000, 26451 / 5000000, 1151 / 200000, 5497 / 500000, 2391 / 200000),
     (46221 / 10000, 23111 / 5000, - 46799 / 1000000, - 42997 / 1000000, - 17379 / 100000, - 7989 / 50000),
     (11093 / 2000, 27733 / 5000, 39471 / 100000, 21503 / 50000, 21417 / 5000, 46599 / 10000)]"

definition bp_rows :: "cert_row list" where
  "bp_rows =
    [(1 / 2500, 1 / 2500, - 1, 1, - 1 / 100, 1 / 100),
     (3 / 6250, 3 / 6250, - 1, 1, - 1 / 100, 1 / 100),
     (57 / 100000, 29 / 50000, - 1, 1, - 1 / 100, 1 / 100),
     (69 / 100000, 7 / 10000, - 1, 1, - 1 / 100, 1 / 100),
     (41 / 50000, 83 / 100000, - 1, 1, - 1 / 100, 1 / 100),
     (99 / 100000, 1 / 1000, - 1, 1, - 1 / 100, 1 / 100),
     (11 / 10000, 3 / 2500, - 1, 1, - 1 / 100, 1 / 100),
     (7 / 5000, 3 / 2000, - 1, 1, - 1 / 100, 1 / 100),
     (17 / 10000, 9 / 5000, - 1, 1, - 1 / 100, 1 / 100),
     (1 / 500, 21 / 10000, - 1, 1, - 1 / 100, 1 / 100),
     (3 / 1250, 1 / 400, - 1, 1, - 1 / 100, 1 / 100),
     (29 / 10000, 3 / 1000, - 1, 1, - 1 / 100, 1 / 100),
     (7 / 2000, 9 / 2500, - 1, 1, - 1 / 100, 1 / 100),
     (21 / 5000, 43 / 10000, - 1, 1, - 1 / 100, 1 / 100),
     (51 / 10000, 13 / 2500, - 1, 1, - 1 / 100, 1 / 100),
     (61 / 10000, 31 / 5000, - 1, 1, - 1 / 100, 1 / 100),
     (73 / 10000, 37 / 5000, - 1, 1, - 1 / 100, 1 / 100)]"

section \<open>Basic facts\<close>

subsection \<open>The right-hand side\<close>

lemmas rhs_layers = rhs_def rhsActin_def rhsCofilin_def rhsArp23_def rhsCaMKII_def run_writes_def
  rhs_writes_def rhsActin_writes_def rhsCofilin_writes_def rhsArp23_writes_def rhsCaMKII_writes_def

lemmas rhs_unfold = rhs_layers rhs_v1_def

lemma length_run_writes [simp]: "length (run_writes ws d) = length d"
  unfolding run_writes_def
proof (induction ws arbitrary: d)
  case Nil then show ?case by simp
next
  case (Cons w ws) then show ?case by (cases w) simp_all
qed

lemma length_rhs [simp]: "length (rhs t x d) = length d"
  by (simp add: rhs_def rhsActin_def rhsCofilin_def rhsArp23_def rhsCaMKII_def)

text \<open>The indices, in three groups.\<close>

lemma upt_nvar:
  "[0..<nvar] = [0, 1, 2, 3, 4, 5, 6, 7, 8, 9, 10, 11, 12, 13, 14, 15]
     @ [16, 17, 18, 19, 20, 21, 22, 23, 24, 25, 26, 27, 28, 29, 30, 31]
     @ [32, 33, 34, 35, 36, 37, 38, 39, 40, 41, 42, 43, 44, 45]"
  unfolding nvar_def by (simp add: upt_rec)

lemma all_less_nvar: "(\<forall>i<nvar. P i) \<longleftrightarrow> list_all P [0..<nvar]"
  by (auto simp: list_all_iff)

lemma length_bp_state [simp]: "length (bp_state a) = nvar"
  by (simp add: bp_state_def)

lemma nth_bp_state: "i < nvar \<Longrightarrow> bp_state a ! i = (if i = Bp then a else 0)"
  by (simp add: bp_state_def nth_list_update)

lemma rhs_bp_state: 
  assumes "length d = nvar" 
  shows "rhs t (bp_state a) d = bp_state (- 0.04 * a)"
proof (rule nth_equalityI)
  show "length (rhs t (bp_state a) d) = length (bp_state (- 0.04 * a))" using assms by simp
  have "\<forall>i<nvar. rhs t (bp_state a) d ! i = bp_state (- 0.04 * a) ! i"
    unfolding all_less_nvar upt_nvar using assms
    by (simp add: rhs_unfold Let_def Variables_defs nvar_def bp_state_def)
  then show "\<And>i. i < length (rhs t (bp_state a) d) \<Longrightarrow> rhs t (bp_state a) d ! i = bp_state (- 0.04 * a) ! i"
    using assms by simp
qed


lemma fold_update_upt:
  "n \<le> length xs \<Longrightarrow> fold (\<lambda>i xs. xs[i := f i]) [0..<n] xs = map f [0..<n] @ drop n xs"
proof (induction n)
  case 0 then show ?case by simp
next
  case (Suc n)
  then have n: "n < length xs" by simp
  have "fold (\<lambda>i xs. xs[i := f i]) [0..<Suc n] xs = (map f [0..<n] @ drop n xs)[n := f n]"
    using Suc by simp
  also have "\<dots> = map f [0..<n] @ (drop n xs)[0 := f n]"
    by (simp add: list_update_append)
  also have "(drop n xs)[0 := f n] = f n # drop (Suc n) xs"
    using n by (simp add: Cons_nth_drop_Suc [symmetric])
  finally show ?case by simp
qed

lemma fold_update_all:
  "length xs = n \<Longrightarrow> fold (\<lambda>i xs. xs[i := f i]) [0..<n] xs = map f [0..<n]"
  by (simp add: fold_update_upt)

lemma length_fresh [simp]: "length fresh = nvar"
  by (simp add: fresh_def)

lemma xtmp2_map:
  "xtmp2 s = map (\<lambda>i. st_x s ! i + 0.5 * st_h s * st_dxdt1 s ! i) [0..<nvar]"
  unfolding xtmp2_def by (rule fold_update_all) simp

lemma length_xtmp2 [simp]: "length (xtmp2 s) = nvar"
  by (simp add: xtmp2_map)

lemma xtmp3_map:
  "xtmp3 s = map (\<lambda>i. st_x s ! i + 0.75 * st_h s * dxdt2 s ! i) [0..<nvar]"
  unfolding xtmp3_def by (rule fold_update_all) simp

lemma length_xtmp3 [simp]: "length (xtmp3 s) = nvar"
  by (simp add: xtmp3_map)

lemma xtmp4_map:
  "xtmp4 s = map (\<lambda>i. st_x s ! i
      + (1.0 / 9.0) * st_h s * (2.0 * st_dxdt1 s ! i + 3.0 * dxdt2 s ! i + 4.0 * dxdt3 s ! i)) [0..<nvar]"
  unfolding xtmp4_def by (rule fold_update_all) simp

lemma length_xtmp4 [simp]: "length (xtmp4 s) = nvar"
  by (simp add: xtmp4_map)

lemma length_dxdt2 [simp]: "length (dxdt2 s) = nvar"
  by (simp add: dxdt2_def)
lemma length_dxdt3 [simp]: "length (dxdt3 s) = nvar"
  by (simp add: dxdt3_def)
lemma length_dxdt4 [simp]: "length (dxdt4 s) = nvar"
  by (simp add: dxdt4_def)

lemma fold_pair:
  "fold (\<lambda>i (a, b). (F i a, G i b)) xs (a0, b0) = (fold F xs a0, fold G xs b0)"
  by (induction xs arbitrary: a0 b0) simp_all

lemma xnew_map:
  "xnew s = map (\<lambda>i. st_x s ! i + st_h s / 24.0
                  * (7.0 * st_dxdt1 s ! i + 6.0 * dxdt2 s ! i + 8.0 * dxdt3 s ! i
                     + 3.0 * dxdt4 s ! i)) [0..<nvar]"
  unfolding xnew_def error_loop_def fold_pair fst_conv by (rule fold_update_all) simp

lemma length_xnew [simp]: "length (xnew s) = nvar"
  by (simp add: xnew_map)

lemma fold_max_upt:
  "fold (\<lambda>i (m::real). if f i > m then f i else m) [0..<n] m0 = Max (insert m0 (f ` {0..<n}))"
proof (induction n)
  case 0 then show ?case by simp
next
  case (Suc n)
  define A where "A = insert m0 (f ` {0..<n})"
  have A: "finite A" "A \<noteq> {}" by (simp_all add: A_def)
  have "fold (\<lambda>i m. if f i > m then f i else m) [0..<Suc n] m0
        = (if f n > Max A then f n else Max A)"
    using Suc unfolding A_def by simp
  also have "\<dots> = max (f n) (Max A)"
    by (simp add: max_def)
  also have "\<dots> = Max (insert (f n) A)"
    using A by (rule Max_insert [symmetric])
  also have "insert (f n) A = insert m0 (f ` {0..<Suc n})"
    unfolding A_def by (auto simp: less_Suc_eq)
  finally show ?case .
qed

lemma errMax_Max0: "errMax s = Max (insert 0 (erri s ` {0..<nvar}))"
  unfolding errMax_def error_loop_def fold_pair snd_conv
  using fold_max_upt [of "erri s" nvar 0] by simp

lemma tolerance_pos: "0 < tolerance"
  by (simp add: tolerance_def)

lemma erri_nonneg: "0 \<le> erri s i"
  by (simp add: erri_def tolerance_def)

lemma errMax_ge: "i < nvar \<Longrightarrow> erri s i \<le> errMax s"
  unfolding errMax_Max0 by (rule Max_ge) simp_all

lemma errMax_nonneg: "0 \<le> errMax s"
  unfolding errMax_Max0 by (rule Max_ge) simp_all

lemma errMax_Max: "errMax s = Max (erri s ` {0..<nvar})"
proof -
  define A where "A = erri s ` {0..<nvar}"
  have A: "finite A" "A \<noteq> {}" by (simp_all add: A_def nvar_def)
  have "erri s 0 \<in> A" by (simp add: A_def nvar_def)
  then have "erri s 0 \<le> Max A" using A by simp
  then have "0 \<le> Max A" using erri_nonneg [of s 0] by linarith
  moreover have "errMax s = max 0 (Max A)"
    unfolding errMax_Max0 A_def [symmetric] using A by (rule Max_insert)
  ultimately show ?thesis by (simp add: A_def)
qed

lemma errMax_le_iff: "errMax s \<le> c \<longleftrightarrow> 0 \<le> c \<and> (\<forall>i<nvar. erri s i \<le> c)"
  unfolding errMax_Max0 by (subst Max_le_iff) auto


lemma kd_simps: "kdShrinkMax = 1/10" "kdGrowMax = 6/5" "kdSafety = 9/10" "kdMinH = 1/1000000"
  by (simp_all add: kdShrinkMax_def kdGrowMax_def kdSafety_def kdMinH_def)

lemma fct_pos: "0 < fct s"
proof (cases "errMax s > 0")
  case True
  then have "0 < errMax s powr (1 / 3)" by simp
  then show ?thesis using True by (simp add: fct_def kd_simps)
next
  case False
  then show ?thesis by (simp add: fct_def kd_simps)
qed

lemma fct_reject_less: 
  assumes "errMax s > 1" shows "fct s < kdSafety"
proof -
  have "1 powr (1/3) < errMax s powr (1 / 3)"
    using assms by (intro powr_less_mono2) simp_all
  then have "1 < errMax s powr (1 / 3)" by simp
  then have "kdSafety / (errMax s powr (1 / 3)) < kdSafety / 1"
    using assms by (intro divide_strict_left_mono) (simp_all add: kd_simps)
  then show ?thesis using assms by (simp add: fct_def)
qed

lemma shrink_factor: "(if fct s < kdShrinkMax then st_h s * kdShrinkMax else st_h s * fct s)
    = st_h s * max (fct s) kdShrinkMax"
  by (simp add: max_def)

lemma grow_factor: "(if fct s > kdGrowMax then st_h s * kdGrowMax else st_h s * fct s)
    = st_h s * min (fct s) kdGrowMax"
  by (simp add: min_def)

lemma stepper_reject_eq:
  assumes "errMax s > 1"
  shows "bogackiShampineStepper s =
     (if st_h s * max (fct s) kdShrinkMax < kdMinH then Inl StepSizeUnderflow else Inr False,
      s\<lparr>st_h := st_h s * max (fct s) kdShrinkMax\<rparr>)"
  using assms unfolding bogackiShampineStepper_def shrink_factor by (simp add: Let_def)

lemma stepper_accept_eq:
  assumes "errMax s \<le> 1"
  shows "bogackiShampineStepper s =
     (Inr True, \<lparr>st_t = st_t s + st_h s, st_x = xnew s, st_dxdt1 = dxdt4 s,
                 st_h = st_h s * min (fct s) kdGrowMax\<rparr>)"
  using assms unfolding bogackiShampineStepper_def grow_factor by simp

lemma stepper_h_pos:
  assumes "0 < st_h s" shows "0 < st_h (snd (bogackiShampineStepper s))"
proof (cases "errMax s > 1")
  case True
  have "0 < max (fct s) kdShrinkMax" using fct_pos [of s] by (simp add: max_def kd_simps)
  then show ?thesis using assms True by (simp add: stepper_reject_eq)
next
  case False
  have "0 < min (fct s) kdGrowMax" using fct_pos [of s] by (simp add: min_def kd_simps)
  then show ?thesis using assms False by (simp add: stepper_accept_eq)
qed

lemma loop_body_st:
  "loop_body l = Inr l' \<Longrightarrow> lp_st l' = snd (bogackiShampineStepper (lp_st l))"
  unfolding loop_body_def by (auto split: prod.splits sum.splits)

lemma main_loop_h_pos:
  "main_loop n l = Inr l' \<Longrightarrow> 0 < st_h (lp_st l) \<Longrightarrow> 0 < st_h (lp_st l')"
proof (induction n arbitrary: l)
  case 0 then show ?case by simp
next
  case (Suc n)
  show ?case
  proof (cases "st_t (lp_st l) < tEnd")
    case False with Suc.prems show ?thesis by simp
  next
    case True
    with Suc.prems obtain m where m: "loop_body l = Inr m" "main_loop n m = Inr l'"
      by (auto split: sum.splits)
    from m(1) Suc.prems(2) have "0 < st_h (lp_st m)"
      by (simp add: loop_body_st stepper_h_pos)
    with Suc.IH m(2) show ?thesis by blast
  qed
qed

lemma loop_init_h_pos: "0 < st_h (lp_st (loop_init x0))"
  by (simp add: loop_init_def dt0_def)


lemma map_bp_state:
  assumes "\<And>i. i < nvar \<Longrightarrow> f i = (if i = Bp then v else 0)"
  shows "map f [0..<nvar] = bp_state v"
  by (rule nth_equalityI) (simp_all add: assms nth_bp_state)

lemma Bp_less: "Bp < nvar"
  by (simp add: Bp_def nvar_def)

lemma bp_xtmp2: "xtmp2 (bp_step t a d h) = bp_state (a + 0.5 * h * d)"
  unfolding xtmp2_map by (rule map_bp_state) (simp add: bp_step_def nth_bp_state)

lemma bp_dxdt2: "dxdt2 (bp_step t a d h) = bp_state (bp_k2 a d h)"
  unfolding dxdt2_def bp_xtmp2 bp_k2_def by (rule rhs_bp_state) simp

lemma bp_xtmp3: "xtmp3 (bp_step t a d h) = bp_state (a + 0.75 * h * bp_k2 a d h)"
  unfolding xtmp3_map bp_dxdt2 by (rule map_bp_state) (simp add: bp_step_def nth_bp_state)

lemma bp_dxdt3: "dxdt3 (bp_step t a d h) = bp_state (bp_k3 a d h)"
  unfolding dxdt3_def bp_xtmp3 bp_k3_def by (rule rhs_bp_state) simp

lemma bp_xtmp4: "xtmp4 (bp_step t a d h) = bp_state (bp_x4 a d h)"
  unfolding xtmp4_map bp_dxdt2 bp_dxdt3 bp_x4_def
  by (rule map_bp_state) (simp add: bp_step_def nth_bp_state)

lemma bp_dxdt4: "dxdt4 (bp_step t a d h) = bp_state (bp_k4 a d h)"
  unfolding dxdt4_def bp_xtmp4 bp_k4_def by (rule rhs_bp_state) simp

lemma bp_xnew: "xnew (bp_step t a d h) = bp_state (bp_new a d h)"
  unfolding xnew_map bp_dxdt2 bp_dxdt3 bp_dxdt4 bp_new_def
  by (rule map_bp_state) (simp add: bp_step_def nth_bp_state)

lemma bp_erri: "i < nvar \<Longrightarrow> erri (bp_step t a d h) i = (if i = Bp then bp_err a d h else 0)"
  unfolding erri_def bp_dxdt2 bp_dxdt3 bp_dxdt4 bp_err_def
  by (simp add: bp_step_def nth_bp_state)

lemma bp_err_nonneg: "0 \<le> bp_err a d h"
  by (simp add: bp_err_def tolerance_def)

lemma bp_errMax: "errMax (bp_step t a d h) = bp_err a d h"
proof (rule antisym)
  show "errMax (bp_step t a d h) \<le> bp_err a d h"
    unfolding errMax_le_iff using bp_err_nonneg by (simp add: bp_erri)
  show "bp_err a d h \<le> errMax (bp_step t a d h)"
    using errMax_ge [OF Bp_less, of "bp_step t a d h"] by (simp add: bp_erri Bp_less)
qed


lemma cube_powr_third:
  assumes "0 < (c::real)" shows "(c ^ 3) powr (1 / 3) = c"
proof -
  have "c ^ 3 = c powr 3" using assms by simp
  then have "(c ^ 3) powr (1 / 3) = (c powr 3) powr (1 / 3)" by (rule arg_cong)
  also have "\<dots> = c powr (3 * (1 / 3))" by (rule powr_powr)
  also have "\<dots> = c" using assms by simp
  finally show ?thesis .
qed

lemma powr_third_less:
  assumes "0 \<le> e" "e < c ^ 3" "0 < (c::real)" shows "e powr (1 / 3) < c"
proof -
  have "e powr (1 / 3) < (c ^ 3) powr (1 / 3)"
    using assms by (intro powr_less_mono2) simp_all
  then show ?thesis using assms by (simp only: cube_powr_third)
qed

lemma powr_third_greater:
  assumes "c ^ 3 < e" "0 < (c::real)" shows "c < e powr (1 / 3)"
proof -
  have "(c ^ 3) powr (1 / 3) < e powr (1 / 3)"
    using assms by (intro powr_less_mono2) simp_all
  then show ?thesis using assms by (simp only: cube_powr_third)
qed

lemma fct_max_growth:
  assumes "errMax s < 27 / 64"
  shows "min (fct s) kdGrowMax = kdGrowMax"
proof (cases "errMax s > 0")
  case False
  then show ?thesis by (simp add: fct_def)
next
  case True
  have "errMax s < (3 / 4) ^ 3" using assms by (simp add: power3_eq_cube)
  then have lt: "errMax s powr (1 / 3) < 3 / 4"
    using True by (intro powr_third_less) simp_all
  have pos: "0 < errMax s powr (1 / 3)" using True by simp
  have "kdGrowMax * (errMax s powr (1 / 3)) < kdSafety"
    using lt by (simp add: kd_simps)
  then have "kdGrowMax < kdSafety / (errMax s powr (1 / 3))"
    using pos by (simp add: pos_less_divide_eq)
  then show ?thesis using True by (simp add: fct_def min_def)
qed

lemma fct_max_shrink:
  assumes "errMax s > 729"
  shows "max (fct s) kdShrinkMax = kdShrinkMax"
proof -
  have "9 ^ 3 < errMax s" using assms by simp
  then have lt: "9 < errMax s powr (1 / 3)"
    by (intro powr_third_greater) simp_all
  then have "kdSafety < kdShrinkMax * (errMax s powr (1 / 3))"
    by (simp add: kd_simps)
  moreover have "0 < errMax s powr (1 / 3)" using lt by linarith
  ultimately have "kdSafety / (errMax s powr (1 / 3)) < kdShrinkMax"
    by (simp add: pos_divide_less_eq)
  then show ?thesis using assms by (simp add: fct_def max_def)
qed

lemma loop_body_accept:
  assumes "errMax (lp_st l) \<le> 1"
  shows "\<exists>l'. loop_body l = Inr l'
     \<and> lp_st l' = \<lparr>st_t = st_t (lp_st l) + st_h (lp_st l), st_x = xnew (lp_st l),
                   st_dxdt1 = dxdt4 (lp_st l),
                   st_h = st_h (lp_st l) * min (fct (lp_st l)) kdGrowMax\<rparr>
     \<and> lp_tsav l' = (if st_t (lp_st l) + st_h (lp_st l) > lp_tsav l then lp_tsav l + dtsav
                     else lp_tsav l)
     \<and> lp_out l' = (if st_t (lp_st l) + st_h (lp_st l) > lp_tsav l
                    then lp_out l @ [(st_t (lp_st l) + st_h (lp_st l), xnew (lp_st l))]
                    else lp_out l)"
  unfolding loop_body_def stepper_accept_eq [OF assms] by simp

lemma loop_body_reject:
  assumes "errMax (lp_st l) > 1"
    and "kdMinH \<le> st_h (lp_st l) * max (fct (lp_st l)) kdShrinkMax"
  shows "\<exists>l'. loop_body l = Inr l'
     \<and> lp_st l' = (lp_st l)\<lparr>st_h := st_h (lp_st l) * max (fct (lp_st l)) kdShrinkMax\<rparr>
     \<and> lp_tsav l' = (if st_t (lp_st l) > lp_tsav l then lp_tsav l + dtsav else lp_tsav l)
     \<and> lp_out l' = (if st_t (lp_st l) > lp_tsav l
                    then lp_out l @ [(st_t (lp_st l), st_x (lp_st l))] else lp_out l)"
  unfolding loop_body_def stepper_reject_eq [OF assms(1)] using assms(2) by simp

subsection \<open>The linear corner: one step\<close>

lemma length_rho_state [simp]: "length (rho_state p r a b) = nvar"
  by (simp add: rho_state_def)

lemma nth_rho_state:
  "i < nvar \<Longrightarrow> rho_state p r a b ! i =
     (if i = Bp then b else if i = RhoGEFact then a else if i = RhoGEF then r
      else if i = CaMKIIp then p else 0)"
  by (auto simp: rho_state_def nth_list_update)

lemma rhs_rho_state:
  assumes "length d = nvar"
  shows "rhs t (rho_state 92500 r a b) d = rho_state 0 (- 25 * r) (25 * r) (- 0.04 * b)"
proof (rule nth_equalityI)
  show "length (rhs t (rho_state 92500 r a b) d) = length (rho_state 0 (- 25 * r) (25 * r) (- 0.04 * b))"
    using assms by simp
  have "\<forall>i<nvar. rhs t (rho_state 92500 r a b) d ! i
      = rho_state 0 (- 25 * r) (25 * r) (- 0.04 * b) ! i"
    unfolding all_less_nvar upt_nvar using assms
    by (simp add: rhs_unfold Let_def Variables_defs nvar_def rho_state_def)
  then show "\<And>i. i < length (rhs t (rho_state 92500 r a b) d) \<Longrightarrow>
      rhs t (rho_state 92500 r a b) d ! i = rho_state 0 (- 25 * r) (25 * r) (- 0.04 * b) ! i"
    using assms by simp
qed

lemma map_rho_state:
  assumes "\<And>i. i < nvar \<Longrightarrow> f i =
     (if i = Bp then b else if i = RhoGEFact then a else if i = RhoGEF then r
      else if i = CaMKIIp then p else 0)"
  shows "map f [0..<nvar] = rho_state p r a b"
  by (rule nth_equalityI) (simp_all add: assms nth_rho_state)

lemma rho_xtmp2:
  "xtmp2 (rho_step t h r a b dr db)
     = rho_state 92500 (r + 0.5 * h * dr) (a - 0.5 * h * dr) (b + 0.5 * h * db)"
  unfolding xtmp2_map
  by (rule map_rho_state) (simp add: rho_step_def nth_rho_state Variables_defs)

lemma rho_dxdt2:
  "dxdt2 (rho_step t h r a b dr db)
     = rho_state 0 (lin_k2 25 r dr h) (- lin_k2 25 r dr h) (lin_k2 0.04 b db h)"
  unfolding dxdt2_def rho_xtmp2 lin_k2_def by (simp add: rhs_rho_state algebra_simps)

lemma rho_xtmp3:
  "xtmp3 (rho_step t h r a b dr db)
     = rho_state 92500 (r + 0.75 * h * lin_k2 25 r dr h) (a - 0.75 * h * lin_k2 25 r dr h)
         (b + 0.75 * h * lin_k2 0.04 b db h)"
  unfolding xtmp3_map rho_dxdt2
  by (rule map_rho_state) (simp add: rho_step_def nth_rho_state Variables_defs)

lemma rho_dxdt3:
  "dxdt3 (rho_step t h r a b dr db)
     = rho_state 0 (lin_k3 25 r dr h) (- lin_k3 25 r dr h) (lin_k3 0.04 b db h)"
  unfolding dxdt3_def rho_xtmp3 lin_k3_def by (simp add: rhs_rho_state algebra_simps)

lemma rho_xtmp4:
  "xtmp4 (rho_step t h r a b dr db)
     = rho_state 92500 (lin_x4 25 r dr h) (a + r - lin_x4 25 r dr h) (lin_x4 0.04 b db h)"
  unfolding xtmp4_map rho_dxdt2 rho_dxdt3 lin_x4_def
  by (rule map_rho_state) (simp add: rho_step_def nth_rho_state Variables_defs algebra_simps)

lemma rho_dxdt4:
  "dxdt4 (rho_step t h r a b dr db)
     = rho_state 0 (lin_k4 25 r dr h) (- lin_k4 25 r dr h) (lin_k4 0.04 b db h)"
  unfolding dxdt4_def rho_xtmp4 lin_k4_def by (simp add: rhs_rho_state algebra_simps)

lemma rho_xnew:
  "xnew (rho_step t h r a b dr db)
     = rho_state 92500 (lin_new 25 r dr h) (a + r - lin_new 25 r dr h) (lin_new 0.04 b db h)"
  unfolding xnew_map rho_dxdt2 rho_dxdt3 rho_dxdt4 lin_new_def
  by (rule map_rho_state) (simp add: rho_step_def nth_rho_state Variables_defs algebra_simps)

lemma rho_erri:
  "i < nvar \<Longrightarrow> erri (rho_step t h r a b dr db) i =
     (if i = Bp then lin_err 0.04 b db h
      else if i = RhoGEFact \<or> i = RhoGEF then lin_err 25 r dr h else 0)"
  unfolding erri_def rho_dxdt2 rho_dxdt3 rho_dxdt4 lin_err_def
  by (simp add: rho_step_def nth_rho_state Variables_defs algebra_simps abs_minus_commute)

lemma lin_err_nonneg: "0 \<le> lin_err lam x d h"
  by (simp add: lin_err_def tolerance_def)

lemma rho_errMax:
  "errMax (rho_step t h r a b dr db) = max (lin_err 25 r dr h) (lin_err 0.04 b db h)"
proof (rule antisym)
  show "errMax (rho_step t h r a b dr db) \<le> max (lin_err 25 r dr h) (lin_err 0.04 b db h)"
    unfolding errMax_le_iff using lin_err_nonneg by (simp add: rho_erri le_max_iff_disj)
  have "RhoGEF < nvar" by (simp add: RhoGEF_def nvar_def)
  from errMax_ge [OF this, of "rho_step t h r a b dr db"] errMax_ge [OF Bp_less, of "rho_step t h r a b dr db"]
  show "max (lin_err 25 r dr h) (lin_err 0.04 b db h) \<le> errMax (rho_step t h r a b dr db)"
    by (simp add: rho_erri Bp_less Variables_defs nvar_def)
qed

subsection \<open>Soundness of the interval enclosures\<close>

declare ud_next.simps [simp del]

lemma pv_mono:
  assumes "list_all (\<lambda>c. 0 \<le> c) cs" and "0 \<le> x" and "x \<le> y"
  shows "0 \<le> pv cs x \<and> pv cs x \<le> pv cs y"
  using assms(1)
proof (induction cs)
  case Nil
  then show ?case by simp
next
  case (Cons c cs)
  then have c: "0 \<le> c" and IH: "0 \<le> pv cs x" "pv cs x \<le> pv cs y" by simp_all
  have "x * pv cs x \<le> y * pv cs y"
    using assms(2,3) IH by (intro mult_mono) simp_all
  moreover have "0 \<le> x * pv cs x" using assms(2) IH(1) by simp
  ultimately show ?case using c by simp
qed

lemma encl_sound:
  assumes "nonneg_coeffs P" and "0 \<le> fst Z" and "in_iv z Z"
  shows "in_iv (pe P z) (encl P Z)"
proof -
  obtain cp cn where P: "P = (cp, cn)" by (cases P)
  obtain zl zh where Z: "Z = (zl, zh)" by (cases Z)
  have z: "0 \<le> zl" "zl \<le> z" "z \<le> zh" using assms(2,3) by (simp_all add: Z)
  have cp: "list_all (\<lambda>c. 0 \<le> c) cp" and cn: "list_all (\<lambda>c. 0 \<le> c) cn"
    using assms(1) by (simp_all add: P)
  have "0 \<le> z" using z by linarith
  from pv_mono [OF cp z(1,2)] pv_mono [OF cp this z(3)]
    pv_mono [OF cn z(1,2)] pv_mono [OF cn this z(3)]
  show ?thesis by (simp add: P Z)
qed

lemma mult_between:
  fixes x y :: real
  assumes "a \<le> x" and "x \<le> b"
  shows "min (a * y) (b * y) \<le> x * y \<and> x * y \<le> max (a * y) (b * y)"
proof (cases "0 \<le> y")
  case True
  then have "a * y \<le> x * y" "x * y \<le> b * y"
    using assms by (simp_all add: mult_right_mono)
  then show ?thesis by (simp add: min_le_iff_disj le_max_iff_disj)
next
  case False
  then have "y \<le> 0" by simp
  then have "x * y \<le> a * y" "b * y \<le> x * y"
    using assms by (simp_all add: mult_right_mono_neg)
  then show ?thesis by (simp add: min_le_iff_disj le_max_iff_disj)
qed

lemma imul_sound:
  assumes "in_iv x I" and "in_iv y J"
  shows "in_iv (x * y) (imul I J)"
proof -
  obtain l u where I: "I = (l, u)" by (cases I)
  obtain l' u' where J: "J = (l', u')" by (cases J)
  have x: "l \<le> x" "x \<le> u" and y: "l' \<le> y" "y \<le> u'"
    using assms by (simp_all add: I J)
  from mult_between [OF x, of y]
  have a1: "min (l * y) (u * y) \<le> x * y" and a2: "x * y \<le> max (l * y) (u * y)"
    by blast+
  from mult_between [OF y, of l]
  have b1: "min (l * l') (l * u') \<le> l * y" and b2: "l * y \<le> max (l * l') (l * u')"
    unfolding mult.commute [of _ l] by blast+
  from mult_between [OF y, of u]
  have c1: "min (u * l') (u * u') \<le> u * y" and c2: "u * y \<le> max (u * l') (u * u')"
    unfolding mult.commute [of _ u] by blast+
  have "min (min (l * l') (l * u')) (min (u * l') (u * u')) \<le> min (l * y) (u * y)"
    using b1 c1 by (rule min.mono)
  then have lo: "min (min (l * l') (l * u')) (min (u * l') (u * u')) \<le> x * y"
    using a1 by (rule order_trans)
  have "max (l * y) (u * y) \<le> max (max (l * l') (l * u')) (max (u * l') (u * u'))"
    using b2 c2 by (rule max.mono)
  with a2 have hi: "x * y \<le> max (max (l * l') (l * u')) (max (u * l') (u * u'))"
    by (rule order_trans)
  show ?thesis
    unfolding I J using lo hi by simp
qed

lemma iadd_sound:
  assumes "in_iv x I" and "in_iv y J"
  shows "in_iv (x + y) (iadd I J)"
  using assms by (cases I; cases J) simp

lemma nonneg_polys:
  "nonneg_coeffs poly_R2" "nonneg_coeffs poly_Ns" "nonneg_coeffs poly_A" "nonneg_coeffs poly_Bq"
  by (simp_all add: poly_R2_def poly_Ns_def poly_A_def poly_Bq_def)

lemma istep_sound:
  assumes "0 \<le> fst Z" and "in_iv z Z" and "in_box p b"
  shows "in_box (ud_next z p) (istep Z b)"
proof -
  obtain u d where p: "p = (u, d)" by (cases p)
  obtain U D where b: "b = (U, D)" by (cases b)
  have u: "in_iv u U" and d: "in_iv d D" using assms(3) by (simp_all add: p b)
  note e = encl_sound [OF _ assms(1,2)]
  show ?thesis
    unfolding p b using u d
    by (simp add: ud_next.simps iadd_sound imul_sound e nonneg_polys)
qed

lemma iv_subset_sound: "iv_subset I J \<Longrightarrow> in_iv x I \<Longrightarrow> in_iv x J"
  by (cases I; cases J) simp

lemma box_subset_sound: "box_subset b b' \<Longrightarrow> in_box p b \<Longrightarrow> in_box p b'"
  by (cases b; cases b'; cases p) (auto intro: iv_subset_sound)

lemma chain_sound:
  assumes "chain_ok lam h b rs" and "in_box p b" and "j < length rs"
  shows "in_box (ud_iter lam h (Suc j) p) (row_box (rs ! j))"
  using assms
proof (induction rs arbitrary: h b p j)
  case Nil
  then show ?case by simp
next
  case (Cons r rs)
  from Cons.prems(1) have z: "0 \<le> fst (row_z r)" "in_iv (lam * h) (row_z r)"
    and s: "box_subset (istep (row_z r) b) (row_box r)"
    and c: "chain_ok lam (h * kdGrowMax) (row_box r) rs" by simp_all
  have n: "in_box (ud_next (lam * h) p) (row_box r)"
    using s istep_sound [OF z Cons.prems(2)] by (rule box_subset_sound)
  show ?case
  proof (cases j)
    case 0
    then show ?thesis using n by simp
  next
    case (Suc k)
    then have "k < length rs" using Cons.prems(3) by simp
    from Cons.IH [OF c n this] show ?thesis by (simp add: Suc)
  qed
qed

subsection \<open>The linear corner: accepted passes of the loop\<close>

lemma ud_next_fst:
  "fst (ud_next z (u, e)) =
     (1 - z + z ^ 2 / 2 - 3 / 16 * z ^ 3 + z ^ 4 / 48) * u
     + (- (7 / 24) * z + 11 / 72 * z ^ 2 - 7 / 48 * z ^ 3 + z ^ 4 / 48) * e"
  by (simp add: ud_next.simps poly_R2_def poly_Ns_def power2_eq_square power3_eq_cube power4_eq_xxxx
      algebra_simps)

lemma ud_next_snd:
  "snd (ud_next z (u, e)) =
     (z ^ 3 / 48 - z ^ 4 / 48) * u + (5 / 72 * z + z ^ 2 / 72 - z ^ 3 / 48 - z ^ 4 / 48) * e"
  by (simp add: ud_next.simps poly_A_def poly_Bq_def power2_eq_square power3_eq_cube power4_eq_xxxx
      algebra_simps)

lemma lin_new_ud:
  "lin_new lam (c * u) (- lam * (c * (u + e))) h = c * fst (ud_next (lam * h) (u, e))"
  unfolding ud_next_fst lin_new_def lin_k4_def lin_x4_def lin_k3_def lin_k2_def
  by (simp add: power2_eq_square power3_eq_cube power4_eq_xxxx algebra_simps)

lemma lin_x4_ud:
  "lin_x4 lam (c * u) (- lam * (c * (u + e))) h
     = c * (fst (ud_next (lam * h) (u, e)) + snd (ud_next (lam * h) (u, e)))"
  unfolding ud_next_fst ud_next_snd lin_x4_def lin_k3_def lin_k2_def
  by (simp add: power2_eq_square power3_eq_cube power4_eq_xxxx algebra_simps)

lemma lin_err_ud:
  "lin_err lam (tolerance * u) (- lam * (tolerance * (u + e))) h
     = \<bar>snd (ud_next (lam * h) (u, e))\<bar>"
proof -
  have "h * ((5.0 / 72.0) * (- lam * (tolerance * (u + e)))
          - (1.0 / 12.0) * lin_k2 lam (tolerance * u) (- lam * (tolerance * (u + e))) h
          - (1.0 / 9.0) * lin_k3 lam (tolerance * u) (- lam * (tolerance * (u + e))) h
          + (1.0 / 8.0) * lin_k4 lam (tolerance * u) (- lam * (tolerance * (u + e))) h)
        = tolerance * (- snd (ud_next (lam * h) (u, e)))"
    unfolding ud_next_snd lin_k4_def lin_x4_def lin_k3_def lin_k2_def
    by (simp add: power2_eq_square power3_eq_cube power4_eq_xxxx field_simps)
  then show ?thesis
    unfolding lin_err_def using tolerance_pos by (simp add: abs_mult)
qed

lemma rho_errMax_of: "errMax (rho_step_of c) = rho_err c"
proof -
  obtain u e where R: "rp_R c = (u, e)" by (cases "rp_R c")
  obtain v f where B: "rp_B c = (v, f)" by (cases "rp_B c")
  show ?thesis
    unfolding rho_step_of_def rho_errMax rho_err_def rho_next_def R B fst_conv snd_conv
      lin_err_ud
    by simp
qed

lemma rho_stepper_accept:
  assumes "rho_err c < 27 / 64"
  shows "bogackiShampineStepper (rho_step_of c) = (Inr True, rho_step_of (rho_next c))"
proof -
  obtain u e where R: "rp_R c = (u, e)" by (cases "rp_R c")
  obtain v f where B: "rp_B c = (v, f)" by (cases "rp_B c")
  have g: "errMax (rho_step_of c) < 27 / 64" using assms by (simp add: rho_errMax_of)
  then have a: "errMax (rho_step_of c) \<le> 1" by simp
  have k4: "lin_k4 lam (tolerance * x) (- lam * (tolerance * (x + y))) h
      = - lam * (tolerance * (fst (ud_next (lam * h) (x, y)) + snd (ud_next (lam * h) (x, y))))"
    for lam x y h
    unfolding lin_k4_def lin_x4_ud by simp
  have x: "xnew (rho_step_of c) = st_x (rho_step_of (rho_next c))"
    unfolding rho_step_of_def rho_xnew rho_next_def R B fst_conv snd_conv lin_new_ud
    by (simp add: rho_step_def)
  have d: "dxdt4 (rho_step_of c) = st_dxdt1 (rho_step_of (rho_next c))"
    unfolding rho_step_of_def rho_dxdt4 rho_next_def R B fst_conv snd_conv k4
    by (simp add: rho_step_def)
  show ?thesis
    unfolding stepper_accept_eq [OF a] fct_max_growth [OF g] x d
    by (simp add: rho_step_of_def rho_step_def rho_next_def)
qed

lemma rho_step_of_sel [simp]:
  "st_t (rho_step_of c) = rp_t c" "st_h (rho_step_of c) = rp_h c"
  by (simp_all add: rho_step_of_def rho_step_def)

lemma rho_next_sel [simp]:
  "rp_t (rho_next c) = rp_t c + rp_h c" "rp_h (rho_next c) = rp_h c * kdGrowMax"
  "rp_tsav (rho_next c) = (if rp_t c + rp_h c > rp_tsav c then rp_tsav c + dtsav else rp_tsav c)"
  "rp_R (rho_next c) = ud_next (25 * rp_h c) (rp_R c)"
  "rp_B (rho_next c) = ud_next (0.04 * rp_h c) (rp_B c)"
  "rp_times (rho_next c) = (if rp_t c + rp_h c > rp_tsav c then rp_times c @ [rp_t c + rp_h c]
                            else rp_times c)"
  by (simp_all add: rho_next_def)

lemma rho_pass:
  assumes "rho_err c < 27 / 64" and "lp_st l = rho_step_of c" and "lp_tsav l = rp_tsav c"
    and "map fst (lp_out l) = rp_times c"
  shows "\<exists>l'. loop_body l = Inr l' \<and> lp_st l' = rho_step_of (rho_next c)
     \<and> lp_tsav l' = rp_tsav (rho_next c) \<and> map fst (lp_out l') = rp_times (rho_next c)"
  unfolding loop_body_def assms(2) rho_stepper_accept [OF assms(1)]
  by (simp add: assms(3,4))

lemma rho_next_iter: "rho_next (rho_iter n c) = rho_iter (Suc n) c"
  by (induction n arbitrary: c) simp_all

lemma rho_run:
  assumes "\<And>j. j < n \<Longrightarrow> rho_err (rho_iter j c) < 27 / 64"
    and "\<And>j. j < n \<Longrightarrow> rp_t (rho_iter j c) < tEnd"
    and "lp_st l = rho_step_of c" and "lp_tsav l = rp_tsav c"
    and "map fst (lp_out l) = rp_times c"
  shows "\<exists>l'. main_loop n l = Inr l' \<and> lp_st l' = rho_step_of (rho_iter n c)
     \<and> lp_tsav l' = rp_tsav (rho_iter n c) \<and> map fst (lp_out l') = rp_times (rho_iter n c)"
  using assms
proof (induction n arbitrary: c l)
  case 0
  then show ?case by simp
next
  case (Suc n)
  have e: "rho_err c < 27 / 64" using Suc.prems(1) [of 0] by simp
  have t: "st_t (lp_st l) < tEnd" using Suc.prems(2) [of 0] Suc.prems(3) by simp
  from rho_pass [OF e Suc.prems(3,4,5)] obtain m where m: "loop_body l = Inr m"
    and st: "lp_st m = rho_step_of (rho_next c)" and ts: "lp_tsav m = rp_tsav (rho_next c)"
    and o: "map fst (lp_out m) = rp_times (rho_next c)"
    by blast
  have "\<exists>l'. main_loop n m = Inr l' \<and> lp_st l' = rho_step_of (rho_iter n (rho_next c))
     \<and> lp_tsav l' = rp_tsav (rho_iter n (rho_next c))
     \<and> map fst (lp_out l') = rp_times (rho_iter n (rho_next c))"
  proof (rule Suc.IH [OF _ _ st ts o])
    fix j assume "j < n"
    then have "Suc j < Suc n" by simp
    from Suc.prems(1) [OF this] Suc.prems(2) [OF this]
    show "rho_err (rho_iter j (rho_next c)) < 27 / 64" "rp_t (rho_iter j (rho_next c)) < tEnd"
      by simp_all
  qed
  then show ?case using t m by simp
qed

lemma main_loop_done: "\<not> st_t (lp_st l) < tEnd \<Longrightarrow> main_loop k l = Inr l"
  by (cases k) simp_all

lemma main_loop_add:
  "main_loop (n + k) l = (case main_loop n l of Inl e \<Rightarrow> Inl e | Inr m \<Rightarrow> main_loop k m)"
proof (induction n arbitrary: l)
  case 0
  then show ?case by simp
next
  case (Suc n)
  show ?case
  proof (cases "st_t (lp_st l) < tEnd")
    case True
    then show ?thesis by (simp add: Suc.IH split: sum.splits)
  next
    case False
    then show ?thesis by (simp add: main_loop_done)
  qed
qed

lemma sched_rho:
  "(rp_t (rho_iter n c), rp_h (rho_iter n c), rp_tsav (rho_iter n c), rp_times (rho_iter n c))
     = sched n (rp_t c, rp_h c, rp_tsav c, rp_times c)"
  by (induction n arbitrary: c) simp_all

lemma rho_iter_R: "rp_R (rho_iter n c) = ud_iter 25 (rp_h c) n (rp_R c)"
  by (induction n arbitrary: c) simp_all

lemma rho_iter_B: "rp_B (rho_iter n c) = ud_iter 0.04 (rp_h c) n (rp_B c)"
  by (induction n arbitrary: c) simp_all

section \<open>The claims\<close>

subsection \<open>C1: the first flux of the Rho/myosin layer\<close>

text \<open>
  C1. In the last layer the first flux \<^verbatim>\<open>v1\<close> divides by \<open>1 + 36\<close>, where 36 is the value
  of the enumeration constant \<^verbatim>\<open>RhoGEF\<close>, and not by \<open>1 + x[RhoGEF]\<close>: for every state
  \<open>x\<close> it equals \<open>0.01 * x[CaMKIIp] * x[RhoGEF] / 37\<close>. This is the flux that enters
  \<^verbatim>\<open>dxdt[RhoGEF]\<close> and \<^verbatim>\<open>dxdt[RhoGEFact]\<close>.
\<close>

theorem rhs_v1_denominator_is_index:
  assumes "length dxdt = nvar"
  shows "rhs_v1 x = (0.01 * x ! CaMKIIp * x ! RhoGEF) / (1.0 + real RhoGEF)
       \<and> real RhoGEF = 36
       \<and> rhs_v1 x = 0.01 * x ! CaMKIIp * x ! RhoGEF / 37
       \<and> rhs t x dxdt ! RhoGEF
           = - rhs_v1 x + (0.1 * x ! PP1act * x ! RhoGEFact) / (1.0 + x ! RhoGEFact)
       \<and> rhs t x dxdt ! RhoGEFact
           = rhs_v1 x - (0.1 * x ! PP1act * x ! RhoGEFact) / (1.0 + x ! RhoGEFact)
       \<and> rhs_v1 (replicate nvar 1)
           \<noteq> (0.01 * replicate nvar 1 ! CaMKIIp * replicate nvar 1 ! RhoGEF)
               / (1.0 + replicate nvar 1 ! RhoGEF)"
proof -
  have "rhs t x dxdt ! RhoGEF
           = - rhs_v1 x + (0.1 * x ! PP1act * x ! RhoGEFact) / (1.0 + x ! RhoGEFact)"
    using assms by (simp add: rhs_layers Let_def Variables_defs nvar_def)
  moreover have "rhs t x dxdt ! RhoGEFact
           = rhs_v1 x - (0.1 * x ! PP1act * x ! RhoGEFact) / (1.0 + x ! RhoGEFact)"
    using assms by (simp add: rhs_layers Let_def Variables_defs nvar_def)
  moreover have "rhs_v1 (replicate nvar 1)
           \<noteq> (0.01 * replicate nvar 1 ! CaMKIIp * replicate nvar 1 ! RhoGEF)
               / (1.0 + replicate nvar 1 ! RhoGEF)"
    by (simp add: rhs_v1_def Variables_defs nvar_def)
  ultimately show ?thesis
    by (simp add: rhs_v1_def RhoGEF_def)
qed

text \<open>
  At the state with every species equal to 1 the flux is \<open>1/3700\<close>, whereas the
  saturating form with \<open>x[RhoGEF]\<close> in the denominator would give \<open>1/200\<close>.
\<close>

theorem rhs_v1_denominator_is_index_witness:
  "length fresh = nvar
   \<and> rhs_v1 (replicate nvar 1) = 1 / 3700
   \<and> (0.01 * replicate nvar 1 ! CaMKIIp * replicate nvar 1 ! RhoGEF)
        / (1.0 + replicate nvar 1 ! RhoGEF) = (1 / 200 :: real)
   \<and> rhs 0 (replicate nvar 1) fresh ! RhoGEFact = 1 / 3700 - 1 / 20"
  using rhs_v1_denominator_is_index [of fresh "replicate nvar 1" 0]
  by (simp add: Variables_defs nvar_def)

subsection \<open>C4: conserved pairs\<close>

lemma pair_sum_zero:
  assumes "length d = nvar"
  shows "rhs t x d ! CaN + rhs t x d ! CaNact = 0"
    and "rhs t x d ! I1 + rhs t x d ! I1act = 0"
    and "rhs t x d ! PP1 + rhs t x d ! PP1act = 0"
    and "rhs t x d ! Cdc42GEF + rhs t x d ! Cdc42GEFact = 0"
    and "rhs t x d ! GAP + rhs t x d ! GAPact = 0"
    and "rhs t x d ! SSH1 + rhs t x d ! SSH1act = 0"
    and "rhs t x d ! LIMK + rhs t x d ! LIMKact = 0"
    and "rhs t x d ! Cofilin + rhs t x d ! Cofilinact = 0"
    and "rhs t x d ! RhoGEF + rhs t x d ! RhoGEFact = 0"
    and "rhs t x d ! ROCK + rhs t x d ! ROCKact = 0"
    and "rhs t x d ! MyoPpase + rhs t x d ! MyoPpaseact = 0"
    and "rhs t x d ! MLC + rhs t x d ! MLCact = 0"
  using assms by (simp_all add: rhs_unfold Let_def Variables_defs nvar_def)

lemma conserved_pairs_sum_zero:
  assumes "length d = nvar" and "(a, b) \<in> set conserved_pairs"
  shows "rhs t x d ! a + rhs t x d ! b = 0"
  using assms(2) pair_sum_zero [OF assms(1), of t x]
  unfolding conserved_pairs_def by auto


lemma conserved_pairs_less:
  "(a, b) \<in> set conserved_pairs \<Longrightarrow> a < nvar \<and> b < nvar"
  unfolding conserved_pairs_def by (auto simp: Variables_defs nvar_def)

lemma trajectory_conserved:
  assumes "trajectory X" and "(a, b) \<in> set conserved_pairs" and "0 \<le> \<tau>"
  shows "X \<tau> ! a + X \<tau> ! b = X 0 ! a + X 0 ! b"
proof (cases "\<tau> = 0")
  case True
  then show ?thesis by simp
next
  case False
  then have pos: "0 < \<tau>" using assms(3) by simp
  have ab: "a < nvar" "b < nvar" using conserved_pairs_less [OF assms(2)] by simp_all
  have d: "((\<lambda>u. X u ! a + X u ! b) has_real_derivative 0) (at u)" if "0 \<le> u" for u
  proof -
    have "((\<lambda>u. X u ! a + X u ! b) has_real_derivative
            (rhs u (X u) fresh ! a + rhs u (X u) fresh ! b)) (at u)"
      using assms(1) ab that unfolding trajectory_def by (intro DERIV_add) blast+
    then show ?thesis
      using conserved_pairs_sum_zero [OF length_fresh assms(2), of u "X u"] by simp
  qed
  have c: "continuous_on {0..\<tau>} (\<lambda>u. X u ! a + X u ! b)"
    by (rule DERIV_continuous_on [where D = "\<lambda>u. 0"])
      (simp add: d has_field_derivative_at_within)
  show ?thesis
    using pos c by (rule DERIV_isconst_end) (simp add: d)
qed

lemma length_mlc_state [simp]: "length (mlc_state m n b) = nvar"
  by (simp add: mlc_state_def)

lemma nth_mlc_state:
  "i < nvar \<Longrightarrow> mlc_state m n b ! i
     = (if i = MLC then m else if i = MLCact then n else if i = Bp then b else 0)"
  by (auto simp add: mlc_state_def nth_list_update Variables_defs)

lemma rhs_mlc_state:
  assumes "length d = nvar"
  shows "rhs t (mlc_state m n b) d = mlc_state (- 0.01 * m) (0.01 * m) (- 0.04 * b)"
proof (rule nth_equalityI)
  show "length (rhs t (mlc_state m n b) d) = length (mlc_state (- 0.01 * m) (0.01 * m) (- 0.04 * b))"
    using assms by simp
  have "\<forall>i<nvar. rhs t (mlc_state m n b) d ! i = mlc_state (- 0.01 * m) (0.01 * m) (- 0.04 * b) ! i"
    unfolding all_less_nvar upt_nvar using assms
    by (simp add: rhs_unfold Let_def Variables_defs nvar_def mlc_state_def)
  then show "\<And>i. i < length (rhs t (mlc_state m n b) d) \<Longrightarrow>
      rhs t (mlc_state m n b) d ! i = mlc_state (- 0.01 * m) (0.01 * m) (- 0.04 * b) ! i"
    using assms by simp
qed

lemma trajectory_mlc_traj: "trajectory mlc_traj"
  unfolding trajectory_def
proof (intro allI impI)
  fix \<tau> :: real and i assume i: "i < nvar"
  have r: "rhs \<tau> (mlc_traj \<tau>) fresh ! i
        = (if i = MLC then - exp (- \<tau> / 100) / 100 else if i = MLCact then exp (- \<tau> / 100) / 100
           else if i = Bp then - exp (- \<tau> / 25) / 25 else 0)"
    unfolding mlc_traj_def by (simp add: rhs_mlc_state nth_mlc_state i cong: if_cong)
  have f: "(\<lambda>u. mlc_traj u ! i)
        = (\<lambda>u. if i = MLC then exp (- u / 100) else if i = MLCact then 1 - exp (- u / 100)
           else if i = Bp then exp (- u / 25) else 0)"
    unfolding mlc_traj_def by (simp add: nth_mlc_state i cong: if_cong)
  show "((\<lambda>u. mlc_traj u ! i) has_real_derivative rhs \<tau> (mlc_traj \<tau>) fresh ! i) (at \<tau>)"
    unfolding r f
    by (auto intro!: derivative_eq_intros simp: Variables_defs)
qed

lemma rhs_defined_mlc_state:
  assumes "0 \<le> m" and "0 \<le> n" and "0 < b"
  shows "rhs_defined (mlc_state m n b)"
proof -
  have e: "0 < b + 10 * exp (50 / b)"
    using assms(3) by (intro add_pos_pos) simp_all
  have "list_all (\<lambda>d. 0 < d) (rhs_denominators (mlc_state m n b))"
    using assms e
    by (simp add: rhs_denominators_def rhsCaMKII_denominators_def rhsArp23_denominators_def
        rhsCofilin_denominators_def rhsActin_denominators_def rhsRho_denominators_def
        mlc_state_def Variables_defs nvar_def add_pos_nonneg)
  then show ?thesis
    unfolding rhs_defined_def list_all_iff by fastforce
qed

lemma rhs_defined_mlc_traj:
  assumes "0 \<le> \<tau>"
  shows "rhs_defined (mlc_traj \<tau>)"
  unfolding mlc_traj_def using assms by (intro rhs_defined_mlc_state) simp_all




subsection \<open>C5: a rejected step\<close>

lemma max_shrink_ge: "kdShrinkMax \<le> max (fct s) kdShrinkMax"
  by simp

lemma min_grow_le: "min (fct s) kdGrowMax \<le> kdGrowMax"
  by simp

lemma reject_h_lower:
  assumes "0 \<le> st_h s"
  shows "kdShrinkMax * st_h s \<le> st_h s * max (fct s) kdShrinkMax"
  using mult_left_mono [OF max_shrink_ge assms, of s] by (simp add: mult.commute)

lemma accept_h_upper:
  assumes "0 \<le> st_h s"
  shows "st_h s * min (fct s) kdGrowMax \<le> st_h s * kdGrowMax"
  using mult_left_mono [OF min_grow_le assms, of s] by simp

lemma main_loop_init_h_pos:
  "main_loop n (loop_init x0) = Inr l \<Longrightarrow> 0 < st_h (lp_st l)"
  using main_loop_h_pos loop_init_h_pos by blast

text \<open>
  C5. When \<open>errMax > 1\<close> the step is rejected: the stepper returns \<open>false\<close>, or throws
  when the shrunk step size is below \<open>kdMinH\<close>. In both cases \<open>t\<close>, \<open>x\<close> and \<open>dxdt1\<close>
  are unchanged and \<open>h\<close> has been multiplied by \<open>max fct kdShrinkMax\<close>. For a
  non-negative step size, hence for every step size that occurs in a run of the loop,
  the new step size is at least \<open>kdShrinkMax\<close> times the old one.
\<close>

theorem stepper_reject:
  assumes "errMax s > 1"
  shows "snd (bogackiShampineStepper s) = s\<lparr>st_h := st_h s * max (fct s) kdShrinkMax\<rparr>
       \<and> fst (bogackiShampineStepper s)
           = (if st_h s * max (fct s) kdShrinkMax < kdMinH then Inl StepSizeUnderflow
              else Inr False)
       \<and> st_t (snd (bogackiShampineStepper s)) = st_t s
       \<and> st_x (snd (bogackiShampineStepper s)) = st_x s
       \<and> st_dxdt1 (snd (bogackiShampineStepper s)) = st_dxdt1 s
       \<and> (0 \<le> st_h s \<longrightarrow> kdShrinkMax * st_h s \<le> st_h (snd (bogackiShampineStepper s)))
       \<and> (\<forall>x0 n l. main_loop n (loop_init x0) = Inr l \<and> lp_st l = s \<longrightarrow>
             kdShrinkMax * st_h s \<le> st_h (snd (bogackiShampineStepper s)))"
proof -
  have eq: "bogackiShampineStepper s =
     (if st_h s * max (fct s) kdShrinkMax < kdMinH then Inl StepSizeUnderflow else Inr False,
      s\<lparr>st_h := st_h s * max (fct s) kdShrinkMax\<rparr>)"
    using assms by (rule stepper_reject_eq)
  have low: "0 \<le> st_h s \<Longrightarrow> kdShrinkMax * st_h s \<le> st_h (snd (bogackiShampineStepper s))"
    unfolding eq using reject_h_lower by simp
  have "kdShrinkMax * st_h s \<le> st_h (snd (bogackiShampineStepper s))"
    if "main_loop n (loop_init x0) = Inr l" "lp_st l = s" for x0 n l
    using main_loop_init_h_pos [OF that(1)] that(2) low by simp
  then show ?thesis
    using low unfolding eq by auto
qed

lemma loop_init_bp: "lp_st (loop_init (bp_state a)) = bp_step 0 a (- 0.04 * a) dt0"
  by (simp add: loop_init_def bp_step_def rhs_bp_state)

lemmas bp_defs = bp_err_def bp_k4_def bp_x4_def bp_k3_def bp_k2_def bp_new_def tolerance_def

text \<open>
  The loop entered with \<^verbatim>\<open>x[Bp] = 1000000\<close> and every other species 0: the first step
  (\<open>h = dt0\<close>) is rejected.
\<close>

theorem stepper_reject_witness:
  "errMax (lp_st (loop_init (bp_state 1000000))) > 1
   \<and> main_loop 0 (loop_init (bp_state 1000000)) = Inr (loop_init (bp_state 1000000))
   \<and> fst (bogackiShampineStepper (lp_st (loop_init (bp_state 1000000)))) = Inr False
   \<and> snd (bogackiShampineStepper (lp_st (loop_init (bp_state 1000000))))
      = \<lparr>st_t = 0, st_x = bp_state 1000000, st_dxdt1 = bp_state (- 40000),
         st_h = dt0 * max (fct (lp_st (loop_init (bp_state 1000000)))) kdShrinkMax\<rparr>
   \<and> kdShrinkMax * dt0 \<le> st_h (snd (bogackiShampineStepper (lp_st (loop_init (bp_state 1000000)))))"
proof -
  define s where "s = lp_st (loop_init (bp_state 1000000))"
  have s: "s = bp_step 0 1000000 (- 40000) dt0"
    unfolding s_def loop_init_bp by simp
  have e: "errMax s > 1"
    unfolding s bp_errMax by (simp add: bp_defs dt0_def)
  have h: "st_h s = dt0" "st_t s = 0" "st_x s = bp_state 1000000" "st_dxdt1 s = bp_state (- 40000)"
    unfolding s by (simp_all add: bp_step_def)
  have "kdShrinkMax * st_h s \<le> st_h s * max (fct s) kdShrinkMax"
    by (rule reject_h_lower) (simp add: h dt0_def)
  then have nounder: "\<not> st_h s * max (fct s) kdShrinkMax < kdMinH"
    by (simp add: h dt0_def kd_simps)
  have m: "main_loop 0 (loop_init (bp_state 1000000)) = Inr (loop_init (bp_state 1000000))"
    by simp
  have pos: "0 \<le> st_h s"
    by (simp add: h dt0_def)
  note inst = stepper_reject [OF e]
  from inst nounder have "fst (bogackiShampineStepper s) = Inr False"
    by presburger
  moreover from inst
  have "snd (bogackiShampineStepper s) = s\<lparr>st_h := st_h s * max (fct s) kdShrinkMax\<rparr>"
    by (rule conjunct1)
  moreover from inst pos
  have "kdShrinkMax * st_h s \<le> st_h (snd (bogackiShampineStepper s))"
    by blast
  ultimately have "fst (bogackiShampineStepper s) = Inr False"
    and "snd (bogackiShampineStepper s) = s\<lparr>st_h := st_h s * max (fct s) kdShrinkMax\<rparr>"
    and "kdShrinkMax * st_h s \<le> st_h (snd (bogackiShampineStepper s))"
    by blast+
  then show ?thesis
    using e m h unfolding s_def [symmetric] by (simp add: s bp_step_def)
qed

subsection \<open>C6: step-size underflow\<close>

text \<open>
  C6. The stepper throws the step-size-underflow error if and only if the step is
  rejected (\<open>errMax > 1\<close>) and the shrunk step size \<open>h * max fct kdShrinkMax\<close> is below
  \<open>kdMinH\<close>. In every other case it returns normally: \<open>true\<close> when \<open>errMax \<le> 1\<close>,
  \<open>false\<close> otherwise.
\<close>

theorem stepper_underflow_iff:
  "(fst (bogackiShampineStepper s) = Inl StepSizeUnderflow
      \<longleftrightarrow> errMax s > 1 \<and> st_h s * max (fct s) kdShrinkMax < kdMinH)
   \<and> fst (bogackiShampineStepper s)
       = (if errMax s > 1 \<and> st_h s * max (fct s) kdShrinkMax < kdMinH
          then Inl StepSizeUnderflow else Inr (errMax s \<le> 1))"
proof (cases "errMax s > 1")
  case True
  then show ?thesis by (simp add: stepper_reject_eq)
next
  case False
  then have "errMax s \<le> 1" by simp
  then show ?thesis by (simp add: stepper_accept_eq)
qed

text \<open>All three outcomes occur: an underflow, a plain rejection and an accepted step.\<close>

theorem stepper_underflow_iff_witness:
  "fst (bogackiShampineStepper (bp_step 0 (10 ^ 18) (- 4 * 10 ^ 16) (1 / 1000000)))
     = Inl StepSizeUnderflow
   \<and> fst (bogackiShampineStepper (bp_step 0 1000000 (- 40000) (1 / 100))) = Inr False
   \<and> fst (bogackiShampineStepper (bp_step 0 1 (- 1 / 25) (1 / 100))) = Inr True"
proof -
  define s1 where "s1 = bp_step 0 (10 ^ 18) (- 4 * 10 ^ 16) (1 / 1000000)"
  define s2 where "s2 = bp_step 0 1000000 (- 40000) (1 / 100)"
  define s3 where "s3 = bp_step 0 1 (- 1 / 25) (1 / 100)"
  have e1: "errMax s1 > 1"
    unfolding s1_def bp_errMax by (simp add: bp_defs)
  have h1: "st_h s1 = 1 / 1000000"
    by (simp add: s1_def bp_step_def)
  have "max (fct s1) kdShrinkMax < 1"
    using fct_reject_less [OF e1] by (simp add: kd_simps)
  then have u1: "st_h s1 * max (fct s1) kdShrinkMax < kdMinH"
    by (simp add: h1 kd_simps)
  have e2: "errMax s2 > 1"
    unfolding s2_def bp_errMax by (simp add: bp_defs)
  have h2: "st_h s2 = 1 / 100"
    by (simp add: s2_def bp_step_def)
  have "kdShrinkMax * st_h s2 \<le> st_h s2 * max (fct s2) kdShrinkMax"
    by (rule reject_h_lower) (simp add: h2)
  then have u2: "\<not> st_h s2 * max (fct s2) kdShrinkMax < kdMinH"
    by (simp add: h2 kd_simps)
  have e3: "errMax s3 \<le> 1"
    unfolding s3_def bp_errMax by (simp add: bp_defs)
  show ?thesis
    unfolding s1_def [symmetric] s2_def [symmetric] s3_def [symmetric]
    using stepper_underflow_iff [of s1] stepper_underflow_iff [of s2]
      stepper_underflow_iff [of s3] e1 u1 e2 u2 e3
    by simp
qed

subsection \<open>C7: an accepted step\<close>

text \<open>
  C7. When \<open>errMax \<le> 1\<close> the stepper returns \<open>true\<close>; it commits the proposed state
  \<open>x + (h/24) (7 k1 + 6 k2 + 8 k3 + 3 k4)\<close>, advances \<open>t\<close> by \<open>h\<close>, replaces \<open>dxdt1\<close>
  by the stage-4 derivative and multiplies \<open>h\<close> by \<open>min fct kdGrowMax\<close>. For a
  non-negative step size, hence for every step size that occurs in a run of the loop,
  the new step size is at most \<open>kdGrowMax\<close> times the old one.
\<close>

theorem stepper_accept:
  assumes "errMax s \<le> 1"
  shows "bogackiShampineStepper s =
           (Inr True, \<lparr>st_t = st_t s + st_h s, st_x = xnew s, st_dxdt1 = dxdt4 s,
                       st_h = st_h s * min (fct s) kdGrowMax\<rparr>)
       \<and> xnew s = map (\<lambda>i. st_x s ! i + st_h s / 24
                         * (7 * st_dxdt1 s ! i + 6 * dxdt2 s ! i + 8 * dxdt3 s ! i
                            + 3 * dxdt4 s ! i)) [0..<nvar]
       \<and> (0 \<le> st_h s \<longrightarrow> st_h (snd (bogackiShampineStepper s)) \<le> st_h s * kdGrowMax)
       \<and> (\<forall>x0 n l. main_loop n (loop_init x0) = Inr l \<and> lp_st l = s \<longrightarrow>
             st_h (snd (bogackiShampineStepper s)) \<le> st_h s * kdGrowMax)"
proof -
  have eq: "bogackiShampineStepper s =
           (Inr True, \<lparr>st_t = st_t s + st_h s, st_x = xnew s, st_dxdt1 = dxdt4 s,
                       st_h = st_h s * min (fct s) kdGrowMax\<rparr>)"
    using assms by (rule stepper_accept_eq)
  have up: "0 \<le> st_h s \<Longrightarrow> st_h (snd (bogackiShampineStepper s)) \<le> st_h s * kdGrowMax"
    unfolding eq using accept_h_upper by simp
  have "st_h (snd (bogackiShampineStepper s)) \<le> st_h s * kdGrowMax"
    if "main_loop n (loop_init x0) = Inr l" "lp_st l = s" for x0 n l
    using main_loop_init_h_pos [OF that(1)] that(2) up by simp
  moreover have "xnew s = map (\<lambda>i. st_x s ! i + st_h s / 24
                         * (7 * st_dxdt1 s ! i + 6 * dxdt2 s ! i + 8 * dxdt3 s ! i
                            + 3 * dxdt4 s ! i)) [0..<nvar]"
    unfolding xnew_map by simp
  ultimately show ?thesis
    using up eq by blast
qed

text \<open>
  The loop entered with \<^verbatim>\<open>x[Bp] = 1\<close> and every other species 0: the first step is
  accepted and the step size grows from \<open>0.01\<close> to \<open>0.012\<close>.
\<close>

theorem stepper_accept_witness:
  "errMax (lp_st (loop_init (bp_state 1))) \<le> 1
   \<and> main_loop 0 (loop_init (bp_state 1)) = Inr (loop_init (bp_state 1))
   \<and> bogackiShampineStepper (lp_st (loop_init (bp_state 1)))
      = (Inr True, \<lparr>st_t = 1 / 100, st_x = bp_state (bp_new 1 (- 1 / 25) (1 / 100)),
           st_dxdt1 = bp_state (bp_k4 1 (- 1 / 25) (1 / 100)), st_h = 6 / 500\<rparr>)
   \<and> st_h (snd (bogackiShampineStepper (lp_st (loop_init (bp_state 1))))) \<le> dt0 * kdGrowMax"
proof -
  define s where "s = lp_st (loop_init (bp_state 1))"
  have s: "s = bp_step 0 1 (- 1 / 25) (1 / 100)"
    unfolding s_def loop_init_bp by (simp add: dt0_def)
  have e: "errMax s < 27 / 64"
    unfolding s bp_errMax by (simp add: bp_defs)
  then have e1: "errMax s \<le> 1" by simp
  have h: "st_h s = dt0" "st_t s = 0"
    unfolding s by (simp_all add: bp_step_def dt0_def)
  have m: "main_loop 0 (loop_init (bp_state 1)) = Inr (loop_init (bp_state 1))"
    by simp
  note inst = stepper_accept [OF e1]
  from inst have "bogackiShampineStepper s =
           (Inr True, \<lparr>st_t = st_t s + st_h s, st_x = xnew s, st_dxdt1 = dxdt4 s,
                       st_h = st_h s * min (fct s) kdGrowMax\<rparr>)"
    by (rule conjunct1)
  then have r: "bogackiShampineStepper s
      = (Inr True, \<lparr>st_t = 1 / 100, st_x = bp_state (bp_new 1 (- 1 / 25) (1 / 100)),
           st_dxdt1 = bp_state (bp_k4 1 (- 1 / 25) (1 / 100)), st_h = 6 / 500\<rparr>)"
    unfolding fct_max_growth [OF e] h unfolding s bp_xnew bp_dxdt4
    by (simp add: dt0_def kd_simps)
  have "0 \<le> st_h s" by (simp add: h dt0_def)
  with inst have "st_h (snd (bogackiShampineStepper s)) \<le> st_h s * kdGrowMax"
    by blast
  then show ?thesis
    using e1 m r unfolding s_def [symmetric] h by simp
qed


subsection \<open>C3: the stages of one step\<close>

lemma erri_alt:
  "erri s = (\<lambda>i. \<bar>st_h s * (5 / 72 * st_dxdt1 s ! i - 1 / 12 * dxdt2 s ! i
                       - 1 / 9 * dxdt3 s ! i + 1 / 8 * dxdt4 s ! i)\<bar> / tolerance)"
  by (rule ext) (simp add: erri_def)

lemma fct_root:
  "fct s = (if errMax s > 0 then kdSafety / root 3 (errMax s) else kdGrowMax)"
proof (cases "errMax s > 0")
  case True
  then have "root 3 (errMax s) = errMax s powr (1 / 3)"
    using root_powr_inverse [of 3 "errMax s"] by simp
  then show ?thesis using True by (simp add: fct_def)
next
  case False
  then show ?thesis by (simp add: fct_def)
qed

lemma stepper_by_cases:
  "bogackiShampineStepper s =
     (if errMax s > 1 then
        (if st_h s * max (fct s) kdShrinkMax < kdMinH then Inl StepSizeUnderflow else Inr False,
         s\<lparr>st_h := st_h s * max (fct s) kdShrinkMax\<rparr>)
      else (Inr True, \<lparr>st_t = st_t s + st_h s, st_x = xnew s, st_dxdt1 = dxdt4 s,
                        st_h = st_h s * min (fct s) kdGrowMax\<rparr>))"
  by (simp add: stepper_reject_eq stepper_accept_eq)

text \<open>
  C3. One call of the stepper on \<open>(t, x, k1, h)\<close>, where \<open>k1\<close> is the derivative passed in,
  evaluates the right-hand side three times: at \<open>(t + h/2, x + (h/2) k1)\<close>, at
  \<open>(t + 3h/4, x + (3h/4) k2)\<close> and at \<open>(t + h, x + (h/9) (2 k1 + 3 k2 + 4 k3))\<close>. The
  proposed state is \<open>x + (h/24) (7 k1 + 6 k2 + 8 k3 + 3 k4)\<close>, \<open>errMax\<close> is the maximum over
  the 46 components of \<open>|h (5/72 k1 - 1/12 k2 - 1/9 k3 + 1/8 k4)| / tolerance\<close>, and \<open>fct\<close>
  is \<open>kdSafety\<close> over the cube root of \<open>errMax\<close> when \<open>errMax > 0\<close> and \<open>kdGrowMax\<close>
  otherwise. What the call returns and leaves in its four variables is determined by
  these quantities alone: the first conjunct gives the result of the call in terms of
  them, the others identify them with the intermediate values of the stepper.
\<close>

theorem stepper_stages:
  "bogackiShampineStepper s =
     (let t = st_t s; x = st_x s; k1 = st_dxdt1 s; h = st_h s;
          x2 = map (\<lambda>i. x ! i + h / 2 * k1 ! i) [0..<nvar];
          k2 = rhs (t + h / 2) x2 fresh;
          x3 = map (\<lambda>i. x ! i + 3 * h / 4 * k2 ! i) [0..<nvar];
          k3 = rhs (t + 3 * h / 4) x3 fresh;
          x4 = map (\<lambda>i. x ! i + h / 9 * (2 * k1 ! i + 3 * k2 ! i + 4 * k3 ! i)) [0..<nvar];
          k4 = rhs (t + h) x4 fresh;
          x' = map (\<lambda>i. x ! i + h / 24 * (7 * k1 ! i + 6 * k2 ! i + 8 * k3 ! i + 3 * k4 ! i))
                 [0..<nvar];
          e = Max ((\<lambda>i. \<bar>h * (5 / 72 * k1 ! i - 1 / 12 * k2 ! i - 1 / 9 * k3 ! i
                                + 1 / 8 * k4 ! i)\<bar> / tolerance) ` {0..<nvar});
          f = (if e > 0 then kdSafety / root 3 e else kdGrowMax)
      in if e > 1 then
           (if h * max f kdShrinkMax < kdMinH then Inl StepSizeUnderflow else Inr False,
            s\<lparr>st_h := h * max f kdShrinkMax\<rparr>)
         else (Inr True, \<lparr>st_t = t + h, st_x = x', st_dxdt1 = k4, st_h = h * min f kdGrowMax\<rparr>))
   \<and> xtmp2 s = map (\<lambda>i. st_x s ! i + st_h s / 2 * st_dxdt1 s ! i) [0..<nvar]
   \<and> dxdt2 s = rhs (st_t s + st_h s / 2) (xtmp2 s) fresh
   \<and> xtmp3 s = map (\<lambda>i. st_x s ! i + 3 * st_h s / 4 * dxdt2 s ! i) [0..<nvar]
   \<and> dxdt3 s = rhs (st_t s + 3 * st_h s / 4) (xtmp3 s) fresh
   \<and> xtmp4 s = map (\<lambda>i. st_x s ! i + st_h s / 9
                       * (2 * st_dxdt1 s ! i + 3 * dxdt2 s ! i + 4 * dxdt3 s ! i)) [0..<nvar]
   \<and> dxdt4 s = rhs (st_t s + st_h s) (xtmp4 s) fresh
   \<and> xnew s = map (\<lambda>i. st_x s ! i + st_h s / 24
                      * (7 * st_dxdt1 s ! i + 6 * dxdt2 s ! i + 8 * dxdt3 s ! i
                         + 3 * dxdt4 s ! i)) [0..<nvar]
   \<and> errMax s = Max ((\<lambda>i. \<bar>st_h s * (5 / 72 * st_dxdt1 s ! i - 1 / 12 * dxdt2 s ! i
                       - 1 / 9 * dxdt3 s ! i + 1 / 8 * dxdt4 s ! i)\<bar> / tolerance) ` {0..<nvar})
   \<and> card {0..<nvar} = 46
   \<and> fct s = (if errMax s > 0 then kdSafety / root 3 (errMax s) else kdGrowMax)"
proof -
  have a: "map (\<lambda>i. st_x s ! i + st_h s / 2 * st_dxdt1 s ! i) [0..<nvar] = xtmp2 s"
    unfolding xtmp2_map by simp
  have b: "rhs (st_t s + st_h s / 2) (xtmp2 s) fresh = dxdt2 s"
    unfolding dxdt2_def by simp
  have c: "map (\<lambda>i. st_x s ! i + 3 * st_h s / 4 * dxdt2 s ! i) [0..<nvar] = xtmp3 s"
    unfolding xtmp3_map by simp
  have d: "rhs (st_t s + 3 * st_h s / 4) (xtmp3 s) fresh = dxdt3 s"
    unfolding dxdt3_def by simp
  have e: "map (\<lambda>i. st_x s ! i + st_h s / 9
              * (2 * st_dxdt1 s ! i + 3 * dxdt2 s ! i + 4 * dxdt3 s ! i)) [0..<nvar] = xtmp4 s"
    unfolding xtmp4_map by simp
  have f: "rhs (st_t s + st_h s) (xtmp4 s) fresh = dxdt4 s"
    by (simp add: dxdt4_def)
  have g: "map (\<lambda>i. st_x s ! i + st_h s / 24
              * (7 * st_dxdt1 s ! i + 6 * dxdt2 s ! i + 8 * dxdt3 s ! i + 3 * dxdt4 s ! i))
             [0..<nvar] = xnew s"
    unfolding xnew_map by simp
  have h: "Max ((\<lambda>i. \<bar>st_h s * (5 / 72 * st_dxdt1 s ! i - 1 / 12 * dxdt2 s ! i
              - 1 / 9 * dxdt3 s ! i + 1 / 8 * dxdt4 s ! i)\<bar> / tolerance) ` {0..<nvar}) = errMax s"
    unfolding errMax_Max erri_alt ..
  have i: "(if errMax s > 0 then kdSafety / root 3 (errMax s) else kdGrowMax) = fct s"
    by (simp add: fct_root)
  have n: "card {0..<nvar} = 46"
    by (simp add: nvar_def)
  show ?thesis
    unfolding Let_def a b c d e f g h i using n stepper_by_cases [of s] by simp
qed


subsection \<open>C8: every slot of the derivative vector is initialised\<close>

lemma rhs_all_writes: "rhs t x dxdt = run_writes (all_writes x) dxdt"
  by (simp add: rhs_def rhsActin_def rhsCofilin_def rhsArp23_def rhsCaMKII_def
      run_writes_def all_writes_def)

lemma assigned_slots:
  "map target (filter is_assign (all_writes x)) = [0..<nvar]"
  unfolding upt_nvar
  by (simp add: all_writes_def rhs_writes_def rhsActin_writes_def rhsCofilin_writes_def
      rhsArp23_writes_def rhsCaMKII_writes_def Let_def Variables_defs)

lemma accumulated_slots:
  "map target (filter (\<lambda>w. \<not> is_assign w) (all_writes x)) = [Factin, Gactin, Arp23act]"
  by (simp add: all_writes_def rhs_writes_def rhsActin_writes_def rhsCofilin_writes_def
      rhsArp23_writes_def rhsCaMKII_writes_def Let_def)

lemma accum_after_assign_all_writes: "accum_after_assign [] (all_writes x)"
  by (simp add: all_writes_def rhs_writes_def rhsActin_writes_def rhsCofilin_writes_def
      rhsArp23_writes_def rhsCaMKII_writes_def Let_def Variables_defs)

lemma update_agree:
  assumes "length d = length d'" and "k < length d" and "k \<noteq> j \<Longrightarrow> d ! k = d' ! k"
  shows "d[j := v] ! k = d'[j := v] ! k"
proof (cases "k = j")
  case True
  then show ?thesis using assms(1,2) by simp
next
  case False
  then show ?thesis using assms(3) by simp
qed

lemma run_writes_agree:
  assumes "accum_after_assign seen ws" and "length d = length d'"
    and "\<forall>k \<in> set seen. k < length d \<longrightarrow> d ! k = d' ! k"
    and "i \<in> set seen \<union> set (map target (filter is_assign ws))" and "i < length d"
  shows "run_writes ws d ! i = run_writes ws d' ! i"
  using assms unfolding run_writes_def
proof (induction ws arbitrary: seen d d')
  case Nil
  then show ?case by simp
next
  case (Cons w ws)
  show ?case
  proof (cases w)
    case (Assign j v)
    have "fold apply_write ws (d[j := v]) ! i = fold apply_write ws (d'[j := v]) ! i"
    proof (rule Cons.IH [of "j # seen"])
      show "accum_after_assign (j # seen) ws"
        using Cons.prems(1) Assign by simp
      show "length (d[j := v]) = length (d'[j := v])"
        using Cons.prems(2) by simp
      show "\<forall>k\<in>set (j # seen). k < length (d[j := v]) \<longrightarrow> d[j := v] ! k = d'[j := v] ! k"
      proof (intro ballI impI)
        fix k assume k: "k \<in> set (j # seen)" "k < length (d[j := v])"
        show "d[j := v] ! k = d'[j := v] ! k"
          using Cons.prems(2,3) k by (intro update_agree) auto
      qed
      show "i \<in> set (j # seen) \<union> set (map target (filter is_assign ws))"
        using Cons.prems(4) Assign by auto
      show "i < length (d[j := v])"
        using Cons.prems(5) by simp
    qed
    then show ?thesis using Assign by simp
  next
    case (Accum j v)
    have j: "j \<in> set seen" and ok: "accum_after_assign seen ws"
      using Cons.prems(1) Accum by simp_all
    have "fold apply_write ws (d[j := d ! j + v]) ! i
        = fold apply_write ws (d'[j := d' ! j + v]) ! i"
    proof (rule Cons.IH [of seen])
      show "accum_after_assign seen ws" by (rule ok)
      show "length (d[j := d ! j + v]) = length (d'[j := d' ! j + v])"
        using Cons.prems(2) by simp
      show "\<forall>k\<in>set seen. k < length (d[j := d ! j + v]) \<longrightarrow>
              d[j := d ! j + v] ! k = d'[j := d' ! j + v] ! k"
      proof (intro ballI impI)
        fix k assume k: "k \<in> set seen" "k < length (d[j := d ! j + v])"
        show "d[j := d ! j + v] ! k = d'[j := d' ! j + v] ! k"
        proof (cases "k = j")
          case True
          then have "d ! j = d' ! j" using Cons.prems(3) k by simp
          then show ?thesis using True k Cons.prems(2) by simp
        next
          case False
          then show ?thesis using Cons.prems(3) k by simp
        qed
      qed
      show "i \<in> set seen \<union> set (map target (filter is_assign ws))"
        using Cons.prems(4) Accum by auto
      show "i < length (d[j := d ! j + v])"
        using Cons.prems(5) by simp
    qed
    then show ?thesis using Accum by simp
  qed
qed

lemma rhs_buffer_independent:
  assumes "length d = nvar" and "length d' = nvar"
  shows "rhs t x d = rhs t x d'"
proof (rule nth_equalityI)
  show "length (rhs t x d) = length (rhs t x d')"
    using assms by simp
  fix i assume "i < length (rhs t x d)"
  then have i: "i < nvar" using assms by simp
  then have "i \<in> set [] \<union> set (map target (filter is_assign (all_writes x)))"
    unfolding assigned_slots by simp
  then have "run_writes (all_writes x) d ! i = run_writes (all_writes x) d' ! i"
    using accum_after_assign_all_writes i assms
    by (intro run_writes_agree [of "[]"]) simp_all
  then show "rhs t x d ! i = rhs t x d' ! i"
    by (simp add: rhs_all_writes)
qed

lemma accumulations_in_actin_layer:
  "filter (\<lambda>w. \<not> is_assign w) (all_writes x) = filter (\<lambda>w. \<not> is_assign w) (rhsActin_writes x)"
  by (simp add: all_writes_def rhs_writes_def rhsActin_writes_def rhsCofilin_writes_def
      rhsArp23_writes_def rhsCaMKII_writes_def Let_def)

text \<open>
  C8. Over the five layers every one of the 46 slots is assigned exactly once (in fact in
  index order); the only accumulating writes are those of the actin layer into
  \<^verbatim>\<open>Factin\<close>, \<^verbatim>\<open>Gactin\<close> and \<^verbatim>\<open>Arp23act\<close>, each after the slot has been assigned by
  an earlier layer (the first two by the CaMKII layer, the third by the Arp2/3 layer).
  Therefore the vector returned does not depend on what the output buffer held before.
\<close>

theorem rhs_initialises_every_slot:
  assumes "length d = nvar" and "length d' = nvar"
  shows "rhs t x d = run_writes (all_writes x) d
       \<and> map target (filter is_assign (all_writes x)) = [0..<nvar]
       \<and> map target (filter (\<lambda>w. \<not> is_assign w) (all_writes x)) = [Factin, Gactin, Arp23act]
       \<and> filter (\<lambda>w. \<not> is_assign w) (all_writes x)
           = filter (\<lambda>w. \<not> is_assign w) (rhsActin_writes x)
       \<and> accum_after_assign [] (all_writes x)
       \<and> Factin \<in> set (map target (filter is_assign (rhsCaMKII_writes x)))
       \<and> Gactin \<in> set (map target (filter is_assign (rhsCaMKII_writes x)))
       \<and> Arp23act \<in> set (map target (filter is_assign (rhsArp23_writes x)))
       \<and> length (rhs t x d) = nvar
       \<and> rhs t x d = rhs t x d'"
proof (intro conjI)
  show "Factin \<in> set (map target (filter is_assign (rhsCaMKII_writes x)))"
    and "Gactin \<in> set (map target (filter is_assign (rhsCaMKII_writes x)))"
    by (simp_all add: rhsCaMKII_writes_def Let_def)
  show "Arp23act \<in> set (map target (filter is_assign (rhsArp23_writes x)))"
    by (simp add: rhsArp23_writes_def Let_def)
  show "rhs t x d = run_writes (all_writes x) d"
    by (rule rhs_all_writes)
  show "map target (filter is_assign (all_writes x)) = [0..<nvar]"
    by (rule assigned_slots)
  show "map target (filter (\<lambda>w. \<not> is_assign w) (all_writes x)) = [Factin, Gactin, Arp23act]"
    by (rule accumulated_slots)
  show "filter (\<lambda>w. \<not> is_assign w) (all_writes x)
           = filter (\<lambda>w. \<not> is_assign w) (rhsActin_writes x)"
    by (rule accumulations_in_actin_layer)
  show "accum_after_assign [] (all_writes x)"
    by (rule accum_after_assign_all_writes)
  show "length (rhs t x d) = nvar"
    using assms(1) by simp
  show "rhs t x d = rhs t x d'"
    using assms by (rule rhs_buffer_independent)
qed

text \<open>
  For the initial conditions of \<^verbatim>\<open>main\<close>, a buffer of zeros and a buffer of sevens give
  the same derivative.
\<close>

theorem rhs_initialises_every_slot_witness:
  "length fresh = nvar \<and> length (replicate nvar (7::real)) = nvar
   \<and> rhs 0 x_init fresh = rhs 0 x_init (replicate nvar 7)
   \<and> rhs 0 x_init (replicate nvar 7) ! Ca = - 93 / 4
   \<and> replicate nvar (7::real) ! Ca = 7"
proof -
  have l: "length fresh = nvar" "length (replicate nvar (7::real)) = nvar"
    by simp_all
  have "rhs 0 x_init fresh = rhs 0 x_init (replicate nvar 7)"
    using rhs_initialises_every_slot [OF l, of 0 x_init] by blast
  moreover have "rhs 0 x_init (replicate nvar 7) ! Ca = - 93 / 4"
    by (simp add: rhs_unfold Let_def Variables_defs nvar_def x_init_def)
  ultimately show ?thesis
    by (simp add: Variables_defs nvar_def)
qed

subsection \<open>C10: division by zero in the right-hand side\<close>

text \<open>
  C10, as stated, fails: the claim is that for every state of length 46 every divisor of
  the right-hand side is nonzero. At the state of zeros the divisor \<^verbatim>\<open>x[Bp]\<close> of
  \<^verbatim>\<open>50.0 / x[Bp]\<close> is zero. A positive \<^verbatim>\<open>x[Bp]\<close> alone does not help: at the state with
  \<^verbatim>\<open>x[CaN] = -127\<close> and every other species 1 the saturating denominator
  \<^verbatim>\<open>127.0 + x[CaN]\<close> is zero.
\<close>

theorem zero_state_divides_by_zero:
  "length (replicate nvar (0::real)) = nvar
   \<and> rhsActin_denominators (replicate nvar 0) ! 2 = replicate nvar 0 ! Bp
   \<and> replicate nvar (0::real) ! Bp = 0
   \<and> \<not> rhs_defined (replicate nvar 0)
   \<and> 0 < (replicate nvar (1::real))[CaN := - 127] ! Bp
   \<and> rhsCaMKII_denominators ((replicate nvar 1)[CaN := - 127]) ! 4 = 0
   \<and> \<not> rhs_defined ((replicate nvar 1)[CaN := - 127])"
proof -
  have "(0::real) \<in> set (rhs_denominators (replicate nvar 0))"
    by (simp add: rhs_denominators_def rhsActin_denominators_def Variables_defs nvar_def)
  then have z: "\<not> rhs_defined (replicate nvar 0)"
    unfolding rhs_defined_def by blast
  have "(0::real) \<in> set (rhs_denominators ((replicate nvar 1)[CaN := - 127]))"
    by (simp add: rhs_denominators_def rhsCaMKII_denominators_def Variables_defs nvar_def)
  then have n: "\<not> rhs_defined ((replicate nvar 1)[CaN := - 127])"
    unfolding rhs_defined_def by blast
  from z n show ?thesis
    by (simp add: rhsActin_denominators_def rhsCaMKII_denominators_def Variables_defs nvar_def)
qed

lemma nonneg_nth:
  assumes "list_all (\<lambda>v. 0 \<le> v) x" and "length x = nvar" and "i < nvar"
  shows "0 \<le> (x ! i :: real)"
  using assms by (simp add: list_all_length)

text \<open>
  C10, amended. For every state of length 46 whose entries are all non-negative and whose
  \<^verbatim>\<open>x[Bp]\<close> is positive, every divisor of the right-hand side is positive, so no division
  by zero occurs, and the result has 46 entries.
\<close>

theorem rhs_defined_nonneg:
  assumes "length x = nvar" and "list_all (\<lambda>v. 0 \<le> v) x" and "0 < x ! Bp"
  shows "list_all (\<lambda>d. 0 < d) (rhs_denominators x) \<and> rhs_defined x
       \<and> length (rhs t x fresh) = nvar"
proof -
  note nn = nonneg_nth [OF assms(2,1)]
  have e: "0 < 10 * exp (50 / x ! Bp)" by simp
  have p: "0 \<le> (x ! CaCaM) ^ 4" by simp
  have 1: "list_all (\<lambda>d. 0 < d) (rhsCaMKII_denominators x)"
    unfolding rhsCaMKII_denominators_def
    by (auto intro!: add_pos_nonneg nn p simp: Variables_defs nvar_def)
  have 2: "list_all (\<lambda>d. 0 < d) (rhsArp23_denominators x)"
    unfolding rhsArp23_denominators_def
    by (auto intro!: add_pos_nonneg nn simp: Variables_defs nvar_def)
  have 3: "list_all (\<lambda>d. 0 < d) (rhsCofilin_denominators x)"
    unfolding rhsCofilin_denominators_def
    by (auto intro!: add_pos_nonneg nn simp: Variables_defs nvar_def)
  have 4: "list_all (\<lambda>d. 0 < d) (rhsActin_denominators x)"
    unfolding rhsActin_denominators_def using assms(3) add_pos_pos [OF assms(3) e]
    by (auto intro!: add_pos_nonneg nn simp: Variables_defs nvar_def)
  have 5: "list_all (\<lambda>d. 0 < d) (rhsRho_denominators x)"
    unfolding rhsRho_denominators_def
    by (auto intro!: add_pos_nonneg nn simp: Variables_defs nvar_def)
  from 1 2 3 4 5 have all: "list_all (\<lambda>d. 0 < d) (rhs_denominators x)"
    by (simp add: rhs_denominators_def)
  then have "rhs_defined x"
    unfolding rhs_defined_def list_all_iff by fastforce
  with all show ?thesis by simp
qed

lemma x_init_nonneg: "list_all (\<lambda>v. 0 \<le> v) x_init"
proof -
  have "\<forall>i<nvar. 0 \<le> x_init ! i"
    unfolding all_less_nvar upt_nvar
    by (simp add: x_init_def Variables_defs nvar_def)
  then show ?thesis
    by (simp add: list_all_length x_init_def)
qed

text \<open>The initial conditions of \<^verbatim>\<open>main\<close> are such a state.\<close>

theorem rhs_defined_nonneg_witness:
  "length x_init = nvar \<and> list_all (\<lambda>v. 0 \<le> v) x_init \<and> 0 < x_init ! Bp
   \<and> list_all (\<lambda>d. 0 < d) (rhs_denominators x_init) \<and> rhs_defined x_init
   \<and> length (rhs 0 x_init fresh) = nvar"
proof -
  have l: "length x_init = nvar"
    by (simp add: x_init_def)
  have b: "0 < x_init ! Bp"
    by (simp add: x_init_def Variables_defs nvar_def)
  from rhs_defined_nonneg [OF l x_init_nonneg b, of 0] l x_init_nonneg b show ?thesis
    by simp
qed

subsection \<open>C2: the derivative passed to the stepper\<close>

text \<open>
  The committed state and the state at which stage 4 was evaluated differ, in every
  component, by the quantity whose absolute value is the error estimate. They coincide
  only when \<open>errMax\<close> is exactly zero.
\<close>

lemma xnew_minus_stage4:
  assumes "i < nvar"
  shows "xnew s ! i - xtmp4 s ! i
     = st_h s * (5 / 72 * st_dxdt1 s ! i - 1 / 12 * dxdt2 s ! i - 1 / 9 * dxdt3 s ! i
                 + 1 / 8 * dxdt4 s ! i)"
  using assms unfolding xnew_map xtmp4_map by (simp add: algebra_simps)

lemma erri_difference: "i < nvar \<Longrightarrow> erri s i = \<bar>xnew s ! i - xtmp4 s ! i\<bar> / tolerance"
  unfolding xnew_minus_stage4 by (simp add: erri_def)

lemma stage4_is_committed_iff: "xnew s = xtmp4 s \<longleftrightarrow> errMax s = 0"
proof
  assume "xnew s = xtmp4 s"
  then have "\<forall>i<nvar. erri s i \<le> 0" by (simp add: erri_difference)
  then have "errMax s \<le> 0" by (simp add: errMax_le_iff)
  then show "errMax s = 0" using errMax_nonneg [of s] by simp
next
  assume "errMax s = 0"
  then have z: "erri s i = 0" if "i < nvar" for i
    using errMax_ge [OF that, of s] erri_nonneg [of s i] by simp
  show "xnew s = xtmp4 s"
  proof (rule nth_equalityI)
    show "length (xnew s) = length (xtmp4 s)" by simp
    fix i assume "i < length (xnew s)"
    then have i: "i < nvar" by simp
    from z [OF i] show "xnew s ! i = xtmp4 s ! i"
      unfolding erri_difference [OF i] by (simp add: tolerance_def)
  qed
qed

lemma first_call_eq: "first_call = bp_step 0 1 (- 1 / 25) (1 / 100)"
  unfolding first_call_def loop_init_bp by (simp add: dt0_def)

lemma first_call_errMax: "errMax first_call = 833 / 625000000"
  unfolding first_call_eq bp_errMax by (simp add: bp_defs)

lemma second_call_eq:
  "second_call = \<lparr>st_t = 1 / 100, st_x = bp_state (1874250149977501 / 1875000000000000),
      st_dxdt1 = bp_state (- 93712507499 / 2343750000000), st_h = 6 / 500\<rparr>"
proof -
  have e: "errMax first_call < 27 / 64" by (simp add: first_call_errMax)
  then have e1: "errMax first_call \<le> 1" by simp
  have n: "bp_new 1 (- 1 / 25) (1 / 100) = 1874250149977501 / 1875000000000000"
    by (simp add: bp_defs)
  have k: "bp_k4 1 (- 1 / 25) (1 / 100) = - 93712507499 / 2343750000000"
    by (simp add: bp_defs)
  show ?thesis
    unfolding second_call_def stepper_accept_eq [OF e1] fct_max_growth [OF e]
    unfolding first_call_eq bp_xnew bp_dxdt4 n k
    by (simp add: bp_step_def kd_simps)
qed

text \<open>
  C2 claims that at every call of the stepper \<open>dxdt1\<close> is the right-hand side at the
  current \<open>(t, x)\<close>. This holds at the first call. The first step from \<^verbatim>\<open>x[Bp] = 1\<close> is
  accepted; the loop then calls the stepper with \<open>t = 0.01\<close>, the committed state and the
  stage-4 derivative, which was evaluated at another state: in the component \<^verbatim>\<open>Bp\<close> the
  derivative passed is \<open>- 93712507499 / 2343750000000\<close>, the right-hand side at the
  current state is \<open>- 1874250149977501 / 46875000000000000\<close>.
\<close>

theorem fsal_broken_after_accepted_step:
  "st_dxdt1 first_call = rhs (st_t first_call) (st_x first_call) fresh
   \<and> fst (bogackiShampineStepper first_call) = Inr True
   \<and> map_sum id lp_st (main_loop 1 (loop_init (bp_state 1))) = Inr second_call
   \<and> st_t second_call < tEnd
   \<and> xtmp4 first_call ! Bp = 93712507499 / 93750000000
   \<and> st_x second_call ! Bp = 1874250149977501 / 1875000000000000
   \<and> st_dxdt1 second_call ! Bp = - 93712507499 / 2343750000000
   \<and> rhs (st_t second_call) (st_x second_call) fresh ! Bp
       = - 1874250149977501 / 46875000000000000
   \<and> st_dxdt1 second_call \<noteq> rhs (st_t second_call) (st_x second_call) fresh"
proof -
  have e1: "errMax first_call \<le> 1" by (simp add: first_call_errMax)
  have a: "st_dxdt1 first_call = rhs (st_t first_call) (st_x first_call) fresh"
    unfolding first_call_eq by (simp add: bp_step_def rhs_bp_state)
  have b: "fst (bogackiShampineStepper first_call) = Inr True"
    by (simp add: stepper_accept_eq [OF e1])
  have t0: "st_t (lp_st (loop_init (bp_state 1))) < tEnd"
    by (simp add: loop_init_def tEnd_def)
  have c: "map_sum id lp_st (main_loop 1 (loop_init (bp_state 1))) = Inr second_call"
  proof -
    from e1 obtain l' where l': "loop_body (loop_init (bp_state 1)) = Inr l'"
      unfolding first_call_def using loop_body_accept by blast
    then have "lp_st l' = second_call"
      unfolding second_call_def first_call_def by (rule loop_body_st)
    then show ?thesis using t0 l' by simp
  qed
  have d: "st_t second_call < tEnd"
    by (simp add: second_call_eq tEnd_def)
  have x4: "xtmp4 first_call ! Bp = 93712507499 / 93750000000"
    unfolding first_call_eq bp_xtmp4 by (simp add: nth_bp_state Bp_less bp_defs)
  have x: "st_x second_call ! Bp = 1874250149977501 / 1875000000000000"
    by (simp add: second_call_eq nth_bp_state Bp_less)
  have k: "st_dxdt1 second_call ! Bp = - 93712507499 / 2343750000000"
    by (simp add: second_call_eq nth_bp_state Bp_less)
  have r: "rhs (st_t second_call) (st_x second_call) fresh ! Bp
       = - 1874250149977501 / 46875000000000000"
    by (simp add: second_call_eq rhs_bp_state nth_bp_state Bp_less)
  from k r have "st_dxdt1 second_call ! Bp \<noteq> rhs (st_t second_call) (st_x second_call) fresh ! Bp"
    by simp
  then have ne: "st_dxdt1 second_call \<noteq> rhs (st_t second_call) (st_x second_call) fresh"
    by metis
  from a b c d x4 x k r ne show ?thesis by blast
qed

subsection \<open>C9: the order of the rows written\<close>

lemma stepper_time:
  assumes "0 < st_h s"
  shows "(st_t (snd (bogackiShampineStepper s)) = st_t s
          \<and> st_x (snd (bogackiShampineStepper s)) = st_x s)
       \<or> st_t s < st_t (snd (bogackiShampineStepper s))"
proof (cases "errMax s > 1")
  case True
  then show ?thesis by (simp add: stepper_reject_eq)
next
  case False
  then show ?thesis using assms by (simp add: stepper_accept_eq)
qed

lemma sample_le_step:
  assumes "sample_le p (t, x)" and "(t' = t \<and> x' = x) \<or> t < t'"
  shows "sample_le p (t', x')"
  using assms unfolding sample_le_def by auto

lemma loop_body_out:
  assumes "loop_body l = Inr l'"
  shows "lp_out l' = lp_out l \<or> lp_out l' = lp_out l @ [current_sample l']"
  using assms unfolding loop_body_def current_sample_def
  by (auto split: prod.splits sum.splits if_splits)

lemma loop_body_samples_inv:
  assumes "loop_body l = Inr l'" and "samples_inv l"
  shows "samples_inv l'"
proof -
  have st: "lp_st l' = snd (bogackiShampineStepper (lp_st l))"
    using assms(1) by (rule loop_body_st)
  have h: "0 < st_h (lp_st l)" and suc: "successively sample_le (lp_out l)"
    and lst: "lp_out l = [] \<or> sample_le (last (lp_out l)) (current_sample l)"
    using assms(2) unfolding samples_inv_def by simp_all
  have h': "0 < st_h (lp_st l')"
    unfolding st using h by (rule stepper_h_pos)
  have mv: "(st_t (lp_st l') = st_t (lp_st l) \<and> st_x (lp_st l') = st_x (lp_st l))
       \<or> st_t (lp_st l) < st_t (lp_st l')"
    unfolding st using h by (rule stepper_time)
  have lst': "lp_out l = [] \<or> sample_le (last (lp_out l)) (current_sample l')"
    using lst mv unfolding current_sample_def by (auto intro: sample_le_step)
  from loop_body_out [OF assms(1)] show ?thesis
  proof
    assume "lp_out l' = lp_out l"
    then show ?thesis unfolding samples_inv_def using h' suc lst' by simp
  next
    assume o: "lp_out l' = lp_out l @ [current_sample l']"
    have "successively sample_le (lp_out l @ [current_sample l'])"
      unfolding successively_append_iff using suc lst' by simp
    moreover have "sample_le (current_sample l') (current_sample l')"
      by (simp add: sample_le_def)
    ultimately show ?thesis unfolding samples_inv_def o using h' by simp
  qed
qed

lemma main_loop_samples_inv:
  "main_loop n l = Inr l' \<Longrightarrow> samples_inv l \<Longrightarrow> samples_inv l'"
proof (induction n arbitrary: l)
  case 0
  then show ?case by simp
next
  case (Suc n)
  show ?case
  proof (cases "st_t (lp_st l) < tEnd")
    case False
    with Suc.prems show ?thesis by simp
  next
    case True
    with Suc.prems obtain m where m: "loop_body l = Inr m" "main_loop n m = Inr l'"
      by (auto split: sum.splits)
    from m(1) Suc.prems(2) have "samples_inv m" by (rule loop_body_samples_inv)
    with Suc.IH m(2) show ?thesis by blast
  qed
qed

text \<open>
  C9, amended. In every run of the loop, for any two consecutive rows written, the second
  is strictly later in time than the first or it is the same row again (same time and
  same state). The latter happens when the pass that wrote the second row rejected its
  step. This holds for the loop as \<^verbatim>\<open>main\<close> enters it, for any initial conditions, and
  for any entry state with nothing written yet and a positive step size.
\<close>

theorem samples_ordered:
  assumes "main_loop n l0 = Inr l"
    and "l0 = loop_init x0 \<or> (lp_out l0 = [] \<and> 0 < st_h (lp_st l0))"
  shows "successively sample_le (lp_out l)"
proof -
  have "lp_out l0 = [] \<and> 0 < st_h (lp_st l0)"
    using assms(2) by (auto simp: loop_init_def dt0_def)
  then have "samples_inv l0"
    unfolding samples_inv_def by simp
  with assms(1) have "samples_inv l" by (rule main_loop_samples_inv)
  then show ?thesis unfolding samples_inv_def by simp
qed

text \<open>
  The run from the initial conditions \<open>rho_x0\<close>, entered as \<^verbatim>\<open>main\<close> enters the loop
  (\<^verbatim>\<open>t = 0\<close>, \<^verbatim>\<open>dt = dt0\<close>, \<^verbatim>\<open>tsav = 0\<close>). The two lists of enclosures pass the check.
\<close>

lemmas cert_eval = poly_R2_def poly_Ns_def poly_A_def poly_Bq_def kd_simps min_def max_def

lemma rhogef_chain: "chain_ok 25 (1 / 100) ((100, 100), (0, 0)) rhogef_rows"
  unfolding rhogef_rows_def
  by (simp add: cert_eval)

lemma bp_chain: "chain_ok 0.04 (1 / 100) ((1, 1), (0, 0)) bp_rows"
  unfolding bp_rows_def
  by (simp add: cert_eval)

lemma rho_c0_sel [simp]:
  "rp_t rho_c0 = 0" "rp_h rho_c0 = 1 / 100" "rp_tsav rho_c0 = 0" "rp_R rho_c0 = (100, 0)"
  "rp_B rho_c0 = (1, 0)" "rp_times rho_c0 = []"
  by (simp_all add: rho_c0_def dt0_def)

lemma rho_sched:
  "rp_t (rho_iter n rho_c0) = fst (sched n (0, 1 / 100, 0, []))"
  "rp_h (rho_iter n rho_c0) = fst (snd (sched n (0, 1 / 100, 0, [])))"
  "rp_tsav (rho_iter n rho_c0) = fst (snd (snd (sched n (0, 1 / 100, 0, []))))"
  "rp_times (rho_iter n rho_c0) = snd (snd (snd (sched n (0, 1 / 100, 0, []))))"
proof -
  have e: "sched n (0, 1 / 100, 0, [])
      = (rp_t (rho_iter n rho_c0), rp_h (rho_iter n rho_c0), rp_tsav (rho_iter n rho_c0),
         rp_times (rho_iter n rho_c0))"
    using sched_rho [of n rho_c0] by simp
  show "rp_t (rho_iter n rho_c0) = fst (sched n (0, 1 / 100, 0, []))"
    "rp_h (rho_iter n rho_c0) = fst (snd (sched n (0, 1 / 100, 0, [])))"
    "rp_tsav (rho_iter n rho_c0) = fst (snd (snd (sched n (0, 1 / 100, 0, []))))"
    "rp_times (rho_iter n rho_c0) = snd (snd (snd (sched n (0, 1 / 100, 0, []))))"
    unfolding e by simp_all
qed

lemma rows_length: "length rhogef_rows = 18" "length bp_rows = 17"
  by (simp_all add: rhogef_rows_def bp_rows_def)

lemma rho_R_box:
  assumes "j < 18"
  shows "in_box (rp_R (rho_iter (Suc j) rho_c0)) (row_box (rhogef_rows ! j))"
proof -
  have "j < length rhogef_rows" using assms by (simp add: rows_length)
  from chain_sound [OF rhogef_chain _ this, of "(100, 0)"] show ?thesis
    unfolding rho_iter_R by simp
qed

lemma rho_B_box:
  assumes "j < 17"
  shows "in_box (rp_B (rho_iter (Suc j) rho_c0)) (row_box (bp_rows ! j))"
proof -
  have "j < length bp_rows" using assms by (simp add: rows_length)
  from chain_sound [OF bp_chain _ this, of "(1, 0)"] show ?thesis
    unfolding rho_iter_B by simp
qed

lemma row_small_sound:
  assumes "in_box p (row_box r)" and "row_small r"
  shows "\<bar>snd p\<bar> < 27 / 64"
  using assms by (cases r; cases p) auto

lemma rho_err_iter: "rho_err (rho_iter j c)
    = max \<bar>snd (rp_R (rho_iter (Suc j) c))\<bar> \<bar>snd (rp_B (rho_iter (Suc j) c))\<bar>"
  unfolding rho_err_def rho_next_iter ..

lemma rho_err_small:
  assumes "j < 17"
  shows "rho_err (rho_iter j rho_c0) < 27 / 64"
proof -
  have "list_all row_small (take 17 rhogef_rows)"
    by (simp add: rhogef_rows_def)
  moreover have "j < length (take 17 rhogef_rows)"
    using assms by (simp add: rows_length)
  ultimately have "row_small (take 17 rhogef_rows ! j)"
    unfolding list_all_length by blast
  then have "row_small (rhogef_rows ! j)"
    using assms by simp
  moreover have "in_box (rp_R (rho_iter (Suc j) rho_c0)) (row_box (rhogef_rows ! j))"
    using assms by (intro rho_R_box) simp
  ultimately have R: "\<bar>snd (rp_R (rho_iter (Suc j) rho_c0))\<bar> < 27 / 64"
    by (intro row_small_sound)
  have "list_all row_small bp_rows"
    by (simp add: bp_rows_def)
  moreover have "j < length bp_rows"
    using assms by (simp add: rows_length)
  ultimately have "row_small (bp_rows ! j)"
    unfolding list_all_length by blast
  with rho_B_box [OF assms] have B: "\<bar>snd (rp_B (rho_iter (Suc j) rho_c0))\<bar> < 27 / 64"
    by (intro row_small_sound)
  show ?thesis unfolding rho_err_iter using R B by simp
qed

lemma rho_err_big: "1 < rho_err (rho_iter 17 rho_c0)"
proof -
  have "in_box (rp_R (rho_iter (Suc 17) rho_c0)) (row_box (rhogef_rows ! 17))"
    by (rule rho_R_box) simp
  then have "1 < snd (rp_R (rho_iter (Suc 17) rho_c0))"
    by (cases "rp_R (rho_iter (Suc 17) rho_c0)") (simp add: rhogef_rows_def)
  then show ?thesis unfolding rho_err_iter by simp
qed

lemma sched_17:
  "sched 17 (0, 1 / 100, 0, [])
     = (16163719991611 / 15258789062500, 4231664861184 / 19073486328125, 9 / 10,
        [1 / 100, 201811 / 1562500, 8124571 / 39062500, 313968931 / 976562500,
         11839990891 / 24414062500, 72260648471 / 122070312500,
         439667406451 / 610351562500, 2668522016831 / 3051757812500,
         16163719991611 / 15258789062500])"
  by (simp add: eval_nat_numeral kd_simps dtsav_def)

lemma rho_time:
  assumes "j < 18"
  shows "rp_t (rho_iter j rho_c0) < tEnd"
proof -
  have "\<forall>j<18. fst (sched j (0, 1 / 100, 0, [])) < tEnd"
    by (simp add: eval_nat_numeral All_less_Suc kd_simps dtsav_def tEnd_def)
  then show ?thesis using assms by (simp add: rho_sched)
qed

lemma loop_init_rho:
  "lp_st (loop_init rho_x0) = rho_step_of rho_c0" "lp_tsav (loop_init rho_x0) = rp_tsav rho_c0"
  "lp_out (loop_init rho_x0) = []"
  by (simp_all add: loop_init_def rho_x0_def rho_step_of_def rho_step_def rhs_rho_state
      tolerance_def dt0_def)

lemma rho_repeat_run:
  "\<exists>l. main_loop 18 (loop_init rho_x0) = Inr l
     \<and> map fst (lp_out l)
         = [1 / 100, 201811 / 1562500, 8124571 / 39062500, 313968931 / 976562500,
            11839990891 / 24414062500, 72260648471 / 122070312500,
            439667406451 / 610351562500, 2668522016831 / 3051757812500,
            16163719991611 / 15258789062500, 16163719991611 / 15258789062500]"
proof -
  \<comment> \<open>seventeen passes, all accepted with the largest growth of the step size\<close>
  have "\<exists>l'. main_loop 17 (loop_init rho_x0) = Inr l'
      \<and> lp_st l' = rho_step_of (rho_iter 17 rho_c0)
      \<and> lp_tsav l' = rp_tsav (rho_iter 17 rho_c0)
      \<and> map fst (lp_out l') = rp_times (rho_iter 17 rho_c0)"
  proof (rule rho_run)
    fix j :: nat
    assume j: "j < 17"
    then have j': "j < 18" by simp
    from j show "rho_err (rho_iter j rho_c0) < 27 / 64" by (rule rho_err_small)
    from j' show "rp_t (rho_iter j rho_c0) < tEnd" by (rule rho_time)
  qed (simp_all add: loop_init_rho)
  then obtain l17 where r17: "main_loop 17 (loop_init rho_x0) = Inr l17"
    and st17: "lp_st l17 = rho_step_of (rho_iter 17 rho_c0)"
    and ts17: "lp_tsav l17 = rp_tsav (rho_iter 17 rho_c0)"
    and o17: "map fst (lp_out l17) = rp_times (rho_iter 17 rho_c0)" by blast
  \<comment> \<open>the eighteenth pass is rejected and writes the row of the seventeenth again\<close>
  have r: "errMax (lp_st l17) > 1"
    unfolding st17 rho_errMax_of by (rule rho_err_big)
  have "kdShrinkMax * st_h (lp_st l17) \<le> st_h (lp_st l17) * max (fct (lp_st l17)) kdShrinkMax"
    by (rule reject_h_lower) (simp add: st17 rho_sched sched_17)
  then have u: "kdMinH \<le> st_h (lp_st l17) * max (fct (lp_st l17)) kdShrinkMax"
    by (simp add: st17 rho_sched sched_17 kd_simps)
  have w18: "lp_tsav l17 < st_t (lp_st l17)"
    by (simp add: st17 ts17 rho_sched sched_17)
  from loop_body_reject [OF r u] obtain l18 where b18: "loop_body l17 = Inr l18"
    and o18: "lp_out l18 = lp_out l17 @ [(st_t (lp_st l17), st_x (lp_st l17))]"
    using w18 by auto
  have t17: "st_t (lp_st l17) < tEnd" unfolding st17 by (simp add: rho_time)
  have "main_loop (17 + 1) (loop_init rho_x0) = Inr l18"
    unfolding main_loop_add r17 using t17 b18 by simp
  then have m: "main_loop 18 (loop_init rho_x0) = Inr l18"
    by simp
  have "map fst (lp_out l18) = rp_times (rho_iter 17 rho_c0) @ [rp_t (rho_iter 17 rho_c0)]"
    unfolding o18 by (simp add: o17 st17)
  then have o: "map fst (lp_out l18)
         = [1 / 100, 201811 / 1562500, 8124571 / 39062500, 313968931 / 976562500,
            11839990891 / 24414062500, 72260648471 / 122070312500,
            439667406451 / 610351562500, 2668522016831 / 3051757812500,
            16163719991611 / 15258789062500, 16163719991611 / 15258789062500]"
    by (simp add: rho_sched sched_17)
  show ?thesis
    by (rule exI [of _ l18]) (rule conjI [OF m o])
qed

text \<open>
  C9, as stated, fails: the claim is that consecutive rows are strictly increasing in
  time, also across passes that reject. In the run from \<open>rho_x0\<close> the first seventeen
  passes accept their steps, the step size growing by \<open>kdGrowMax\<close> each time; nine of
  them write a row, the seventeenth at \<open>t = 1.0593\<close>, after which the saving time is
  \<open>0.9\<close>. The eighteenth pass rejects its step of size \<open>0.2219\<close> (\<open>errMax > 1\<close>), the time
  stays where it was, still exceeds the saving time, and the row is written again: the
  last two of the ten rows written have the same time.
\<close>

theorem samples_repeat_after_rejection:
  "map_sum id (map fst \<circ> lp_out) (main_loop 18 (loop_init rho_x0))
     = Inr [1 / 100, 201811 / 1562500, 8124571 / 39062500, 313968931 / 976562500,
            11839990891 / 24414062500, 72260648471 / 122070312500,
            439667406451 / 610351562500, 2668522016831 / 3051757812500,
            16163719991611 / 15258789062500, 16163719991611 / 15258789062500]"
  using rho_repeat_run by auto

text \<open>The rows of that run are in the amended order.\<close>

theorem samples_ordered_witness:
  "\<exists>l. main_loop 18 (loop_init rho_x0) = Inr l \<and> lp_out (loop_init rho_x0) = []
      \<and> 0 < st_h (lp_st (loop_init rho_x0)) \<and> successively sample_le (lp_out l)"
proof -
  from rho_repeat_run obtain l where l: "main_loop 18 (loop_init rho_x0) = Inr l"
    by blast
  have e: "lp_out (loop_init rho_x0) = []"
    by (rule loop_init_rho)
  have h: "0 < st_h (lp_st (loop_init rho_x0))"
    by (rule loop_init_h_pos)
  from e h have "loop_init rho_x0 = loop_init rho_x0
      \<or> (lp_out (loop_init rho_x0) = [] \<and> 0 < st_h (lp_st (loop_init rho_x0)))"
    by simp
  from samples_ordered [OF l this] l e h show ?thesis by blast
qed

end
